theory Spec2Isabelle
  imports Complex_Main "HOL-Library.AList"
begin

section \<open>The file system seen by the two scripts\<close>

text \<open>
  Both scripts of \<^verbatim>\<open>generateNodeJsProjectStructureFiles.js\<close> talk to the disk through
  Node's \<^verbatim>\<open>fs\<close> module and build paths with \<^verbatim>\<open>path\<close>. The disk is a finite tree.
  A path that went through \<^verbatim>\<open>path.resolve\<close> or \<^verbatim>\<open>path.join\<close> is absolute and
  normalised, so it is kept as the list of its components below \<^verbatim>\<open>/\<close> (POSIX
  separators). Limits on the length of a name and NUL bytes in names are left out.

  Apart from regular files and directories the tree has the entries on which the
  reader's calls fail: a regular file that cannot be opened, a directory that cannot be
  opened, an entry whose \<^verbatim>\<open>stat\<close> fails (a symbolic link that loops or dangles; every
  call on it fails with the same code) and an entry that is neither file nor directory.
\<close>

datatype errno = ENOENT | ENOTDIR | EISDIR | EEXIST | EACCES | ELOOP | ENXIO | EBUSY

datatype node =
    File string
  | Dir "(string \<times> node) list"
  | Unreadable errno
  | Unlistable errno
  | Broken errno
  | Socket

type_synonym path = "string list"

text \<open>The \<^verbatim>\<open>message\<close> of a system error, without the system call and the path that Node adds.\<close>

definition message :: "errno \<Rightarrow> string" where
  "message e =
     (case e of
        ENOENT \<Rightarrow> ''ENOENT: no such file or directory''
      | ENOTDIR \<Rightarrow> ''ENOTDIR: not a directory''
      | EISDIR \<Rightarrow> ''EISDIR: illegal operation on a directory''
      | EEXIST \<Rightarrow> ''EEXIST: file already exists''
      | EACCES \<Rightarrow> ''EACCES: permission denied''
      | ELOOP \<Rightarrow> ''ELOOP: too many symbolic links encountered''
      | ENXIO \<Rightarrow> ''ENXIO: no such device or address''
      | EBUSY \<Rightarrow> ''EBUSY: resource busy or locked'')"

text \<open>Walking a path down from a node, as the kernel resolves it.\<close>

fun lookup :: "node \<Rightarrow> path \<Rightarrow> errno + node" where
  "lookup n [] = Inr n"
| "lookup (Dir es) (c # cs) =
     (case map_of es c of None \<Rightarrow> Inl ENOENT | Some m \<Rightarrow> lookup m cs)"
| "lookup (Unlistable e) (c # cs) = Inl e"
| "lookup (Broken e) (c # cs) = Inl e"
| "lookup _ (c # cs) = Inl ENOTDIR"

datatype stats = Stats (isDirectory: bool) (isFile: bool)

definition statSync :: "node \<Rightarrow> path \<Rightarrow> errno + stats" where
  "statSync fs p =
     (case lookup fs p of
        Inl e \<Rightarrow> Inl e
      | Inr (Dir es) \<Rightarrow> Inr (Stats True False)
      | Inr (Unlistable e) \<Rightarrow> Inr (Stats True False)
      | Inr (File s) \<Rightarrow> Inr (Stats False True)
      | Inr (Unreadable e) \<Rightarrow> Inr (Stats False True)
      | Inr (Broken e) \<Rightarrow> Inl e
      | Inr Socket \<Rightarrow> Inr (Stats False False))"

text \<open>\<^verbatim>\<open>fs.existsSync\<close> never throws: any failure of the underlying \<^verbatim>\<open>stat\<close> is \<^verbatim>\<open>false\<close>.\<close>

definition existsSync :: "node \<Rightarrow> path \<Rightarrow> bool" where
  "existsSync fs p = (case statSync fs p of Inl e \<Rightarrow> False | Inr st \<Rightarrow> True)"

definition readdirSync :: "node \<Rightarrow> path \<Rightarrow> errno + string list" where
  "readdirSync fs p =
     (case lookup fs p of
        Inl e \<Rightarrow> Inl e
      | Inr (Dir es) \<Rightarrow> Inr (map fst es)
      | Inr (Unlistable e) \<Rightarrow> Inl e
      | Inr (Broken e) \<Rightarrow> Inl e
      | Inr _ \<Rightarrow> Inl ENOTDIR)"

definition readFileSync :: "node \<Rightarrow> path \<Rightarrow> errno + string" where
  "readFileSync fs p =
     (case lookup fs p of
        Inl e \<Rightarrow> Inl e
      | Inr (File s) \<Rightarrow> Inr s
      | Inr (Unreadable e) \<Rightarrow> Inl e
      | Inr (Broken e) \<Rightarrow> Inl e
      | Inr Socket \<Rightarrow> Inl ENXIO
      | Inr _ \<Rightarrow> Inl EISDIR)"

text \<open>
  \<^verbatim>\<open>fs.mkdirSync(p)\<close>: the parent has to be there and the name has to be free. A new
  entry goes to the end of its directory's listing.
\<close>

fun mkdir_at :: "node \<Rightarrow> path \<Rightarrow> errno + node" where
  "mkdir_at n [] = Inl EEXIST"
| "mkdir_at (Dir es) (c # cs) =
     (case map_of es c of
        None \<Rightarrow> if cs = [] then Inr (Dir (es @ [(c, Dir [])])) else Inl ENOENT
      | Some m \<Rightarrow>
          (case mkdir_at m cs of
             Inl e \<Rightarrow> Inl e
           | Inr m' \<Rightarrow> Inr (Dir (AList.update c m' es))))"
| "mkdir_at (Unlistable e) (c # cs) = Inl e"
| "mkdir_at (Broken e) (c # cs) = Inl e"
| "mkdir_at _ (c # cs) = Inl ENOTDIR"

definition mkdirSync :: "node \<Rightarrow> path \<Rightarrow> errno + node" where
  "mkdirSync fs p = mkdir_at fs p"

text \<open>
  \<^verbatim>\<open>fs.mkdirSync(p, { recursive: true })\<close>: missing ancestors are created, a directory
  that is already there is no error, a file in the way is one.
\<close>

fun mkdirp_at :: "node \<Rightarrow> path \<Rightarrow> errno + node" where
  "mkdirp_at (Dir es) [] = Inr (Dir es)"
| "mkdirp_at (Unlistable e) [] = Inr (Unlistable e)"
| "mkdirp_at (Broken e) [] = Inl e"
| "mkdirp_at n [] = Inl EEXIST"
| "mkdirp_at (Dir es) (c # cs) =
     (case map_of es c of
        None \<Rightarrow>
          (case mkdirp_at (Dir []) cs of
             Inl e \<Rightarrow> Inl e
           | Inr m' \<Rightarrow> Inr (Dir (es @ [(c, m')])))
      | Some m \<Rightarrow>
          (case mkdirp_at m cs of
             Inl e \<Rightarrow> Inl e
           | Inr m' \<Rightarrow> Inr (Dir (AList.update c m' es))))"
| "mkdirp_at (Unlistable e) (c # cs) = Inl e"
| "mkdirp_at (Broken e) (c # cs) = Inl e"
| "mkdirp_at _ (c # cs) = Inl ENOTDIR"

definition mkdirSync_recursive :: "node \<Rightarrow> path \<Rightarrow> errno + node" where
  "mkdirSync_recursive fs p = mkdirp_at fs p"

text \<open>
  \<^verbatim>\<open>fs.writeFileSync(p, s, 'utf8')\<close> opens \<^verbatim>\<open>p\<close> for writing, creating or truncating
  a regular file; it creates no directory. A path that \<^verbatim>\<open>path.join\<close> left with a
  trailing separator cannot be opened as a file.
\<close>

fun write_at :: "node \<Rightarrow> path \<Rightarrow> string \<Rightarrow> errno + node" where
  "write_at (File old) [] s = Inr (File s)"
| "write_at (Dir es) [] s = Inl EISDIR"
| "write_at (Unlistable e) [] s = Inl EISDIR"
| "write_at (Unreadable e) [] s = Inl e"
| "write_at (Broken e) [] s = Inl e"
| "write_at Socket [] s = Inl ENXIO"
| "write_at (Dir es) (c # cs) s =
     (case map_of es c of
        None \<Rightarrow> if cs = [] then Inr (Dir (es @ [(c, File s)])) else Inl ENOENT
      | Some m \<Rightarrow>
          (case write_at m cs s of
             Inl e \<Rightarrow> Inl e
           | Inr m' \<Rightarrow> Inr (Dir (AList.update c m' es))))"
| "write_at (Unlistable e) (c # cs) s = Inl e"
| "write_at (Broken e) (c # cs) s = Inl e"
| "write_at _ (c # cs) s = Inl ENOTDIR"

definition writeFileSync :: "node \<Rightarrow> path \<times> bool \<Rightarrow> string \<Rightarrow> errno + node" where
  "writeFileSync fs file s =
     (case file of
        (p, trailing) \<Rightarrow>
          if trailing then
            (case statSync fs p of
               Inr st \<Rightarrow> Inl (if isDirectory st then EISDIR else ENOTDIR)
             | Inl e \<Rightarrow> Inl (if e = ENOENT then EISDIR else e))
          else write_at fs p s)"

text \<open>
  \<^verbatim>\<open>fs.rmSync(p, { recursive: true, force: true })\<close>: the entry goes with all below it;
  a missing entry is no error. Removing \<^verbatim>\<open>/\<close> itself is refused.
\<close>

fun rm_at :: "node \<Rightarrow> path \<Rightarrow> errno + node" where
  "rm_at n [] = Inl EBUSY"
| "rm_at (Dir es) (c # cs) =
     (case map_of es c of
        None \<Rightarrow> Inr (Dir es)
      | Some m \<Rightarrow>
          if cs = [] then Inr (Dir (AList.delete c es))
          else
            (case rm_at m cs of
               Inl e \<Rightarrow> Inl e
             | Inr m' \<Rightarrow> Inr (Dir (AList.update c m' es))))"
| "rm_at (Unlistable e) (c # cs) = Inl e"
| "rm_at (Broken e) (c # cs) = Inl e"
| "rm_at _ (c # cs) = Inl ENOTDIR"

definition rmSync_recursive_force :: "node \<Rightarrow> path \<Rightarrow> errno + node" where
  "rmSync_recursive_force fs p = rm_at fs p"

section \<open>Paths\<close>

text \<open>\<^verbatim>\<open>s.split('/')\<close>: the segments of a path string, empty ones included.\<close>

fun split_sep :: "string \<Rightarrow> string list" where
  "split_sep [] = [[]]"
| "split_sep (c # cs) =
     (if c = CHR ''/'' then [] # split_sep cs
      else (case split_sep cs of [] \<Rightarrow> [[c]] | w # ws \<Rightarrow> (c # w) # ws))"

text \<open>
  Node's \<^verbatim>\<open>normalizeString\<close> for an absolute path: empty segments and \<^verbatim>\<open>.\<close> are
  dropped, \<^verbatim>\<open>..\<close> removes the last component and stays at the root.
\<close>

definition normalizeString :: "path \<Rightarrow> string list \<Rightarrow> path" where
  "normalizeString =
     foldl (\<lambda>res seg.
       if seg = [] \<or> seg = ''.'' then res
       else if seg = ''..'' then butlast res
       else res @ [seg])"

definition isAbsolute :: "string \<Rightarrow> bool" where
  "isAbsolute p = (case p of [] \<Rightarrow> False | c # cs \<Rightarrow> c = CHR ''/'')"

text \<open>\<^verbatim>\<open>path.resolve(p)\<close> in a process whose working directory is \<open>cwd\<close>.\<close>

definition path_resolve :: "path \<Rightarrow> string \<Rightarrow> path" where
  "path_resolve cwd p =
     (if isAbsolute p then normalizeString [] (split_sep p)
      else normalizeString cwd (split_sep p))"

text \<open>
  \<^verbatim>\<open>path.join(dir, name)\<close> for a resolved \<open>dir\<close> and a non-empty \<open>name\<close>: the
  normalised components, and whether the result keeps a trailing separator.
\<close>

definition path_join :: "path \<Rightarrow> string \<Rightarrow> path \<times> bool" where
  "path_join dir name =
     (let comps = normalizeString dir (split_sep name)
      in (comps, comps \<noteq> [] \<and> name \<noteq> [] \<and> last name = CHR ''/''))"

definition path_dirname :: "path \<times> bool \<Rightarrow> path" where
  "path_dirname file = butlast (fst file)"

section \<open>JavaScript values\<close>

text \<open>
  What \<^verbatim>\<open>JSON.parse\<close> returns and what the reader builds. An object is the list of
  its own properties in insertion order. \<^verbatim>\<open>undefined\<close> is \<open>None\<close> where a property is
  read.
\<close>

datatype json =
    JNull
  | JBool bool
  | JNumber real
  | JString string
  | JArray "json list"
  | JObject "(string \<times> json) list"

datatype js_error =
    SyntaxError string
  | TypeError string
  | Error string
  | SystemError errno

definition error_message :: "js_error \<Rightarrow> string" where
  "error_message err =
     (case err of
        SyntaxError m \<Rightarrow> m
      | TypeError m \<Rightarrow> m
      | Error m \<Rightarrow> m
      | SystemError e \<Rightarrow> message e)"

text \<open>
  \<^verbatim>\<open>v.key\<close> for the keys the writer reads (\<^verbatim>\<open>project_files\<close>, \<^verbatim>\<open>name\<close>,
  \<^verbatim>\<open>content\<close>): reading a property of \<^verbatim>\<open>null\<close> throws, a primitive or an array has
  none of the three.
\<close>

definition get_property :: "json \<Rightarrow> string \<Rightarrow> js_error + json option" where
  "get_property v key =
     (case v of
        JNull \<Rightarrow> Inl (TypeError ''Cannot read properties of null'')
      | JObject props \<Rightarrow> Inr (map_of props key)
      | _ \<Rightarrow> Inr None)"

fun truthy :: "json option \<Rightarrow> bool" where
  "truthy None = False"
| "truthy (Some JNull) = False"
| "truthy (Some (JBool b)) = b"
| "truthy (Some (JNumber x)) = (x \<noteq> 0)"
| "truthy (Some (JString s)) = (s \<noteq> [])"
| "truthy (Some (JArray xs)) = True"
| "truthy (Some (JObject props)) = True"

text \<open>
  \<^verbatim>\<open>result[item] = v\<close> on an object made by \<^verbatim>\<open>{}\<close>: the key \<^verbatim>\<open>__proto__\<close> goes to the
  setter inherited from \<^verbatim>\<open>Object.prototype\<close> and adds no own property.
\<close>

definition set_property :: "(string \<times> json) list \<Rightarrow> string \<Rightarrow> json \<Rightarrow> (string \<times> json) list" where
  "set_property obj key v = (if key = ''__proto__'' then obj else AList.update key v obj)"

section \<open>The tree reader\<close>

text \<open>
  The recursion of the reader ends because the tree is finite: the node at the path of an
  entry is smaller than the node of its directory.
\<close>

definition size_at :: "node \<Rightarrow> path \<Rightarrow> nat" where
  "size_at fs p = (case lookup fs p of Inl e \<Rightarrow> 0 | Inr n \<Rightarrow> size n)"

lemma lookup_snoc:
  "lookup n (p @ [c]) = Inr m \<Longrightarrow> \<exists>es. lookup n p = Inr (Dir es) \<and> map_of es c = Some m"
proof (induction n p rule: lookup.induct)
  case (1 n)
  then show ?case by (cases n) (auto split: option.splits)
next
  case (2 es c cs)
  then show ?case by (auto split: option.splits)
qed auto

lemma size_entry: "map_of es c = Some m \<Longrightarrow> size m < size (Dir es)"
  by (induction es) (auto split: if_splits)

lemma size_at_child:
  assumes "statSync fs (p @ [c]) = Inr st"
  shows "size_at fs (p @ [c]) < size_at fs p"
proof -
  from assms obtain m where m: "lookup fs (p @ [c]) = Inr m"
    by (auto simp: statSync_def split: sum.splits)
  from lookup_snoc [OF m] obtain es where "lookup fs p = Inr (Dir es)" "map_of es c = Some m"
    by blast
  with m size_entry show ?thesis by (simp add: size_at_def)
qed

text \<open>
  \<^verbatim>\<open>readDirectoryStructure(dirPath)\<close>, lines 108 to 148. The \<^verbatim>\<open>forEach\<close> over the
  listing is \<open>forEach_item\<close>, with \<open>result\<close> the object built so far; an exception
  thrown in the callback (a failing \<^verbatim>\<open>statSync\<close>) leaves the loop and reaches the
  outer \<^verbatim>\<open>catch\<close>. \<^verbatim>\<open>path.join(dirPath, item)\<close> adds one component, since a listing
  holds plain names. The function's console output is not part of its value and is
  left out.
\<close>

function readDirectoryStructure :: "node \<Rightarrow> path \<Rightarrow> json"
  and forEach_item ::
    "node \<Rightarrow> path \<Rightarrow> string list \<Rightarrow> (string \<times> json) list \<Rightarrow> errno + (string \<times> json) list"
where
  "readDirectoryStructure fs dirPath =
     (case readdirSync fs dirPath of
        Inl dirError \<Rightarrow>
          JObject [(''error'', JString (''Error reading directory: '' @ message dirError))]
      | Inr items \<Rightarrow>
          (case forEach_item fs dirPath items [] of
             Inl dirError \<Rightarrow>
               JObject [(''error'', JString (''Error reading directory: '' @ message dirError))]
           | Inr result \<Rightarrow> JObject result))"
| "forEach_item fs dirPath [] result = Inr result"
| "forEach_item fs dirPath (item # items) result =
     (let itemPath = dirPath @ [item] in
      case statSync fs itemPath of
        Inl dirError \<Rightarrow> Inl dirError
      | Inr stats \<Rightarrow>
          if isDirectory stats then
            forEach_item fs dirPath items
              (set_property result item (readDirectoryStructure fs itemPath))
          else if isFile stats then
            (case readFileSync fs itemPath of
               Inr content \<Rightarrow>
                 forEach_item fs dirPath items (set_property result item (JString content))
             | Inl readError \<Rightarrow>
                 forEach_item fs dirPath items
                   (set_property result item
                     (JString (''Error reading file: '' @ message readError))))
          else forEach_item fs dirPath items result)"
  by pat_completeness auto
termination
  apply (relation "inv_image (less_than <*lex*> less_than <*lex*> less_than)
     (\<lambda>x. case x of
             Inl (fs, p) \<Rightarrow> (size_at fs p, 1::nat, 0::nat)
           | Inr (fs, p, items, r) \<Rightarrow> (size_at fs p, 0, length items))")
  apply (auto simp: size_at_child)
  done

section \<open>The tree writer\<close>

text \<open>
  The process state a run changes: the disk and what was printed. Each \<^verbatim>\<open>console\<close>
  call of the scripts is one constructor of \<open>console_line\<close>, with the values it interpolates.
\<close>

datatype console_line =
    Log_Reading path
  | Log_Generating path
  | Log_CreatedRoot string
  | Warn_Skipping json
  | Log_CreatedDirectory path
  | Log_CreatedFile string
  | Log_Complete
  | Error_InvalidJSON string
  | Error_Occurred string
  | Error_NoJsonPath
  | Log_WriterUsage
  | Error_NoDirectoryPath
  | Log_ReaderUsage
  | Log_DummyCreated
  | Log_GeneratedHeader
  | Log_JsonOutput string
  | Log_Saved
  | Error_WritingJson errno
  | Uncaught errno

record world =
  tree :: node
  console :: "console_line list"

definition emit :: "console_line \<Rightarrow> world \<Rightarrow> world" where
  "emit line w = w\<lparr>console := console w @ [line]\<rparr>"

text \<open>
  The callback of \<^verbatim>\<open>projectData.project_files.forEach\<close>, lines 39 to 58. \<open>None\<close> is
  a normal return, \<open>Some err\<close> an exception, with the state at the throw.
  \<^verbatim>\<open>path.join\<close> throws on a name that is not a string, \<^verbatim>\<open>fs.writeFileSync\<close> (Node 14
  and later) on data that is not a string, before it opens the file.
\<close>

definition forEach_callback :: "path \<Rightarrow> json \<Rightarrow> world \<Rightarrow> js_error option \<times> world" where
  "forEach_callback projectRoot file w =
     (case get_property file ''name'' of
        Inl err \<Rightarrow> (Some err, w)
      | Inr name \<Rightarrow>
          if \<not> truthy name then (None, emit (Warn_Skipping file) w)
          else
            (case get_property file ''content'' of
               Inl err \<Rightarrow> (Some err, w)
             | Inr content \<Rightarrow>
                 if content = None then (None, emit (Warn_Skipping file) w)
                 else
                   (case name of
                      Some (JString s) \<Rightarrow>
                        (let filePath = path_join projectRoot s;
                             dirName = path_dirname filePath
                         in case (if \<not> existsSync (tree w) dirName then
                                    (case mkdirSync_recursive (tree w) dirName of
                                       Inl e \<Rightarrow> Inl e
                                     | Inr t \<Rightarrow>
                                         Inr (emit (Log_CreatedDirectory dirName) (w\<lparr>tree := t\<rparr>)))
                                  else Inr w) of
                              Inl e \<Rightarrow> (Some (SystemError e), w)
                            | Inr w1 \<Rightarrow>
                                (case content of
                                   Some (JString c) \<Rightarrow>
                                     (case writeFileSync (tree w1) filePath c of
                                        Inl e \<Rightarrow> (Some (SystemError e), w1)
                                      | Inr t \<Rightarrow>
                                          (None, emit (Log_CreatedFile s) (w1\<lparr>tree := t\<rparr>)))
                                 | _ \<Rightarrow>
                                     (Some (TypeError ''The data argument must be of type string''),
                                      w1)))
                    | _ \<Rightarrow> (Some (TypeError ''The path argument must be of type string''), w))))"

fun forEach_file :: "path \<Rightarrow> json list \<Rightarrow> world \<Rightarrow> js_error option \<times> world" where
  "forEach_file projectRoot [] w = (None, w)"
| "forEach_file projectRoot (file # files) w =
     (case forEach_callback projectRoot file w of
        (Some err, w') \<Rightarrow> (Some err, w')
      | (None, w') \<Rightarrow> forEach_file projectRoot files w')"

text \<open>
  The \<^verbatim>\<open>try\<close> block of \<^verbatim>\<open>generateProject\<close>, lines 13 to 60. \<open>JSON_parse\<close> is the
  built-in parser, \<open>Inl\<close> the message of its \<^verbatim>\<open>SyntaxError\<close>; \<open>cwd\<close> is the working
  directory of the process.
\<close>

definition generateProject_try ::
  "(string \<Rightarrow> string + json) \<Rightarrow> path \<Rightarrow> string \<Rightarrow> string \<Rightarrow> world \<Rightarrow> js_error option \<times> world"
where
  "generateProject_try JSON_parse cwd jsonFilePath outputDir w =
     (let resolvedJsonPath = path_resolve cwd jsonFilePath;
          projectRoot = path_resolve cwd outputDir;
          w0 = emit (Log_Generating projectRoot) (emit (Log_Reading resolvedJsonPath) w)
      in if \<not> existsSync (tree w0) resolvedJsonPath then
           (Some (Error ''Input file not found''), w0)
         else
           (case readFileSync (tree w0) resolvedJsonPath of
              Inl e \<Rightarrow> (Some (SystemError e), w0)
            | Inr rawData \<Rightarrow>
                (case JSON_parse rawData of
                   Inl m \<Rightarrow> (Some (SyntaxError m), w0)
                 | Inr projectData \<Rightarrow>
                     (case get_property projectData ''project_files'' of
                        Inl err \<Rightarrow> (Some err, w0)
                      | Inr (Some (JArray project_files)) \<Rightarrow>
                          (case (if \<not> existsSync (tree w0) projectRoot then
                                   (case mkdirSync (tree w0) projectRoot of
                                      Inl e \<Rightarrow> Inl e
                                    | Inr t \<Rightarrow> Inr (emit (Log_CreatedRoot outputDir) (w0\<lparr>tree := t\<rparr>)))
                                 else Inr w0) of
                             Inl e \<Rightarrow> (Some (SystemError e), w0)
                           | Inr w1 \<Rightarrow>
                               (case forEach_file projectRoot project_files w1 of
                                  (Some err, w2) \<Rightarrow> (Some err, w2)
                                | (None, w2) \<Rightarrow> (None, emit Log_Complete w2)))
                      | Inr _ \<Rightarrow>
                          (Some (Error ''JSON file must have a root key project_files which is an array.''),
                           w0)))))"

text \<open>
  \<^verbatim>\<open>generateProject\<close> with its \<^verbatim>\<open>catch\<close>, lines 11 to 70: the final state and the exit
  code of the process (\<^verbatim>\<open>process.exit(1)\<close> in the handler, 0 when the script runs to
  its end).
\<close>

definition generateProject ::
  "(string \<Rightarrow> string + json) \<Rightarrow> path \<Rightarrow> string \<Rightarrow> string \<Rightarrow> world \<Rightarrow> world \<times> nat"
where
  "generateProject JSON_parse cwd jsonFilePath outputDir w =
     (case generateProject_try JSON_parse cwd jsonFilePath outputDir w of
        (None, w') \<Rightarrow> (w', 0)
      | (Some (SyntaxError m), w') \<Rightarrow> (emit (Error_InvalidJSON m) w', 1)
      | (Some err, w') \<Rightarrow> (emit (Error_Occurred (error_message err)) w', 1))"

text \<open>The writer script, lines 75 to 87; \<open>argv2\<close> and \<open>argv3\<close> are \<^verbatim>\<open>process.argv[2]\<close> and \<^verbatim>\<open>[3]\<close>.\<close>

definition writer_cli ::
  "(string \<Rightarrow> string + json) \<Rightarrow> path \<Rightarrow> string option \<Rightarrow> string option \<Rightarrow> world \<Rightarrow> world \<times> nat"
where
  "writer_cli JSON_parse cwd argv2 argv3 w =
     (let outputDir = (case argv3 of None \<Rightarrow> ''generated-project''
                       | Some d \<Rightarrow> if d = [] then ''generated-project'' else d)
      in case argv2 of
           None \<Rightarrow> (emit Log_WriterUsage (emit Error_NoJsonPath w), 1)
         | Some jsonFilePath \<Rightarrow>
             if jsonFilePath = [] then (emit Log_WriterUsage (emit Error_NoJsonPath w), 1)
             else generateProject JSON_parse cwd jsonFilePath outputDir w)"

section \<open>The reader script\<close>

text \<open>
  \<^verbatim>\<open>createDummyProject\<close>, lines 173 to 188. Its calls run in sequence; the first that
  throws ends the function, and the exception is not caught anywhere.
  \<^verbatim>\<open>path.join(projectPath, 'src', 'index.js')\<close> is the join with \<^verbatim>\<open>src/index.js\<close>.
\<close>

definition and_then :: "errno option \<times> node \<Rightarrow> (node \<Rightarrow> errno + node) \<Rightarrow> errno option \<times> node" where
  "and_then r call =
     (case r of
        (Some e, t) \<Rightarrow> (Some e, t)
      | (None, t) \<Rightarrow> (case call t of Inl e \<Rightarrow> (Some e, t) | Inr t' \<Rightarrow> (None, t')))"

definition package_json :: string where
  "package_json =
     ''{'' @ [CHR 0x0A] @ ''  '' @ [CHR 0x22] @ ''name'' @ [CHR 0x22] @ '': '' @ [CHR 0x22]
       @ ''dummy-project'' @ [CHR 0x22] @ '','' @ [CHR 0x0A] @ ''  '' @ [CHR 0x22] @ ''version''
       @ [CHR 0x22] @ '': '' @ [CHR 0x22] @ ''1.0.0'' @ [CHR 0x22] @ [CHR 0x0A] @ ''}''"

definition index_js :: string where
  "index_js = ''console.log('' @ [CHR 0x22] @ ''Hello, World!'' @ [CHR 0x22] @ '');''"

definition createDummyProject :: "path \<Rightarrow> node \<Rightarrow> errno option \<times> node" where
  "createDummyProject projectPath t =
     foldl and_then (None, t)
       [\<lambda>t. if existsSync t projectPath then rmSync_recursive_force t projectPath else Inr t,
        \<lambda>t. mkdirSync_recursive t projectPath,
        \<lambda>t. mkdirSync t (fst (path_join projectPath ''src'')),
        \<lambda>t. mkdirSync t (fst (path_join projectPath ''test'')),
        \<lambda>t. writeFileSync t (path_join projectPath ''package.json'') package_json,
        \<lambda>t. writeFileSync t (path_join projectPath ''src/index.js'') index_js,
        \<lambda>t. writeFileSync t (path_join projectPath ''src/utils.js'') ''const add = (a, b) => a + b;'',
        \<lambda>t. writeFileSync t (path_join projectPath ''test/utils.test.js'') ''// Test cases for utils.js'']"

text \<open>
  The reader script, lines 157 to 210. \<open>JSON_stringify\<close> is
  \<^verbatim>\<open>JSON.stringify(_, null, 2)\<close>, \<open>script_dir\<close> is \<^verbatim>\<open>__dirname\<close>. An absolute argument
  is handed to \<^verbatim>\<open>fs\<close> as typed and resolved there; the model normalises it as
  \<^verbatim>\<open>path.resolve\<close> would. An exception that nothing catches ends the process with exit
  code 1.
\<close>

definition reader_cli ::
  "(json \<Rightarrow> string) \<Rightarrow> path \<Rightarrow> path \<Rightarrow> string option \<Rightarrow> world \<Rightarrow> world \<times> nat"
where
  "reader_cli JSON_stringify cwd script_dir argv2 w =
     (case (case argv2 of None \<Rightarrow> None | Some targetPath \<Rightarrow> if targetPath = [] then None else Some targetPath) of
        None \<Rightarrow> (emit Log_ReaderUsage (emit Error_NoDirectoryPath w), 1)
      | Some targetPath \<Rightarrow>
          (let projectPath = (if isAbsolute targetPath then normalizeString [] (split_sep targetPath)
                              else path_resolve cwd targetPath);
               directoryJSON = readDirectoryStructure (tree w) projectPath
           in case createDummyProject projectPath (tree w) of
                (Some e, t) \<Rightarrow> (emit (Uncaught e) (w\<lparr>tree := t\<rparr>), 1)
              | (None, t) \<Rightarrow>
                  (let w1 = emit Log_DummyCreated (w\<lparr>tree := t\<rparr>);
                       directoryJSON = readDirectoryStructure (tree w1) projectPath;
                       jsonOutput = JSON_stringify directoryJSON;
                       w2 = emit (Log_JsonOutput jsonOutput) (emit Log_GeneratedHeader w1)
                   in case writeFileSync (tree w2)
                             (path_join script_dir ''project-structure.json'') jsonOutput of
                        Inl e \<Rightarrow> (emit (Error_WritingJson e) w2, 0)
                      | Inr t' \<Rightarrow> (emit Log_Saved (w2\<lparr>tree := t'\<rparr>), 0))))"

section \<open>Notions used in the statements\<close>

text \<open>The object the reader returns when a directory cannot be read, line 144.\<close>

definition error_object :: "errno \<Rightarrow> json" where
  "error_object e = JObject [(''error'', JString (''Error reading directory: '' @ message e))]"

text \<open>
  What the callback of the reader binds to an entry: nothing for an entry that is
  neither a directory nor a regular file.
\<close>

definition entry_value :: "node \<Rightarrow> path \<Rightarrow> json option" where
  "entry_value fs itemPath =
     (case statSync fs itemPath of
        Inl e \<Rightarrow> None
      | Inr st \<Rightarrow>
          if isDirectory st then Some (readDirectoryStructure fs itemPath)
          else if isFile st then
            Some (case readFileSync fs itemPath of
                    Inr content \<Rightarrow> JString content
                  | Inl e \<Rightarrow> JString (''Error reading file: '' @ message e))
          else None)"


text \<open>A tree in which every \<^verbatim>\<open>stat\<close> succeeds.\<close>

fun no_broken :: "node \<Rightarrow> bool" where
  "no_broken (Broken e) = False"
| "no_broken (Dir es) = (\<forall>m \<in> snd ` set es. no_broken m)"
| "no_broken _ = True"

text \<open>The lines the \<^verbatim>\<open>catch\<close> of the writer prints, lines 64 and 66.\<close>

fun is_error_line :: "console_line \<Rightarrow> bool" where
  "is_error_line (Error_InvalidJSON m) = True"
| "is_error_line (Error_Occurred m) = True"
| "is_error_line _ = False"

text \<open>
  A path at which \<^verbatim>\<open>writeFileSync\<close> can put a regular file once the missing
  directories are made: every component before the last is a directory or absent, the
  last is a regular file or absent.
\<close>

fun writable :: "node \<Rightarrow> path \<Rightarrow> bool" where
  "writable (Dir es) (c # cs) =
     (case map_of es c of
        None \<Rightarrow> True
      | Some m \<Rightarrow> if cs = [] then (case m of File old \<Rightarrow> True | _ \<Rightarrow> False) else writable m cs)"
| "writable _ _ = False"

text \<open>
  For concrete runs: \<^verbatim>\<open>JSON.parse\<close> on the texts of a table, each with the value it
  parses to; any other text is refused.
\<close>

definition parse_known :: "(string \<times> json) list \<Rightarrow> string \<Rightarrow> string + json" where
  "parse_known table text =
     (case map_of table text of None \<Rightarrow> Inl ''Unexpected token'' | Some v \<Rightarrow> Inr v)"

text \<open>
  The callback of the writer in two halves: what an entry asks for, decided from the
  entry alone, and what that does to the disk. Used to follow the disk through a run
  without the console.
\<close>

datatype action = Skip | Fail js_error | Put "path \<times> bool" "string option"

definition entry_action :: "path \<Rightarrow> json \<Rightarrow> action" where
  "entry_action projectRoot file =
     (case get_property file ''name'' of
        Inl err \<Rightarrow> Fail err
      | Inr name \<Rightarrow>
          if \<not> truthy name then Skip
          else
            (case get_property file ''content'' of
               Inl err \<Rightarrow> Fail err
             | Inr content \<Rightarrow>
                 if content = None then Skip
                 else
                   (case name of
                      Some (JString s) \<Rightarrow>
                        Put (path_join projectRoot s)
                          (case content of Some (JString c) \<Rightarrow> Some c | _ \<Rightarrow> None)
                    | _ \<Rightarrow> Fail (TypeError ''The path argument must be of type string''))))"

definition step :: "action \<Rightarrow> node \<Rightarrow> js_error option \<times> node" where
  "step a t =
     (case a of
        Skip \<Rightarrow> (None, t)
      | Fail err \<Rightarrow> (Some err, t)
      | Put file data \<Rightarrow>
          (case (if \<not> existsSync t (path_dirname file)
                 then mkdirSync_recursive t (path_dirname file) else Inr t) of
             Inl e \<Rightarrow> (Some (SystemError e), t)
           | Inr t1 \<Rightarrow>
               (case data of
                  None \<Rightarrow> (Some (TypeError ''The data argument must be of type string''), t1)
                | Some c \<Rightarrow>
                    (case writeFileSync t1 file c of
                       Inl e \<Rightarrow> (Some (SystemError e), t1)
                     | Inr t2 \<Rightarrow> (None, t2)))))"

fun steps :: "action list \<Rightarrow> node \<Rightarrow> js_error option \<times> node" where
  "steps [] t = (None, t)"
| "steps (a # as) t =
     (case step a t of
        (Some err, t') \<Rightarrow> (Some err, t')
      | (None, t') \<Rightarrow> steps as t')"

text \<open>Every \<^verbatim>\<open>stat\<close> succeeds below a path, where the path leads to a node at all.\<close>

definition no_broken_at :: "node \<Rightarrow> path \<Rightarrow> bool" where
  "no_broken_at t p = (case lookup t p of Inl e \<Rightarrow> True | Inr n \<Rightarrow> no_broken n)"

text \<open>What \<^verbatim>\<open>stat\<close> reports for a node.\<close>

definition stat_of :: "node \<Rightarrow> errno + stats" where
  "stat_of n =
     (case n of
        Dir es \<Rightarrow> Inr (Stats True False)
      | Unlistable e \<Rightarrow> Inr (Stats True False)
      | File s \<Rightarrow> Inr (Stats False True)
      | Unreadable e \<Rightarrow> Inr (Stats False True)
      | Broken e \<Rightarrow> Inl e
      | Socket \<Rightarrow> Inr (Stats False False))"

text \<open>Overwriting the regular file at a path; anything else there is left as it is.\<close>

fun ow :: "node \<Rightarrow> path \<Rightarrow> string \<Rightarrow> node" where
  "ow (File old) [] s = File s"
| "ow (Dir es) (k # ks) s =
     (case map_of es k of None \<Rightarrow> Dir es | Some m \<Rightarrow> Dir (AList.update k (ow m ks s) es))"
| "ow n q s = n"

text \<open>The data of the last write a list of requests makes to a path.\<close>

fun final_content :: "action list \<Rightarrow> path \<Rightarrow> string option" where
  "final_content [] q = None"
| "final_content (a # as) q =
     (case final_content as q of
        Some c \<Rightarrow> Some c
      | None \<Rightarrow> (case a of Put f (Some c) \<Rightarrow> if fst f = q then Some c else None | _ \<Rightarrow> None))"

text \<open>The overwrites of a list of requests, in order.\<close>

fun replay :: "action list \<Rightarrow> node \<Rightarrow> node" where
  "replay [] u = u"
| "replay (a # as) u =
     replay as (case a of Put f (Some c) \<Rightarrow> ow u (fst f) c | _ \<Rightarrow> u)"

text \<open>A request that succeeds by overwriting: the directory and the file are there.\<close>

definition replayable :: "node \<Rightarrow> action \<Rightarrow> bool" where
  "replayable u a =
     (case a of
        Skip \<Rightarrow> True
      | Fail e \<Rightarrow> False
      | Put f d \<Rightarrow>
          \<not> snd f \<and> d \<noteq> None \<and> existsSync u (butlast (fst f)) \<and>
          (\<exists>x. lookup u (fst f) = Inr (File x)))"

text \<open>A disk on which every request of a list succeeds by overwriting and every file holds the
  data of the last write to it.\<close>

definition stable :: "action list \<Rightarrow> node \<Rightarrow> bool" where
  "stable as u \<longleftrightarrow>
     (\<forall>a \<in> set as. replayable u a) \<and>
     (\<forall>q c. final_content as q = Some c \<longrightarrow> lookup u q = Inr (File c))"

text \<open>The \<^verbatim>\<open>try\<close> block of the writer on the disk alone: the exception, if any, and the disk
  it leaves.\<close>

definition writer_tree ::
  "(string \<Rightarrow> string + json) \<Rightarrow> path \<Rightarrow> string \<Rightarrow> string \<Rightarrow> node \<Rightarrow> js_error option \<times> node"
where
  "writer_tree JSON_parse cwd jsonFilePath outputDir t =
     (let resolvedJsonPath = path_resolve cwd jsonFilePath;
          projectRoot = path_resolve cwd outputDir
      in if \<not> existsSync t resolvedJsonPath then (Some (Error ''Input file not found''), t)
         else
           (case readFileSync t resolvedJsonPath of
              Inl e \<Rightarrow> (Some (SystemError e), t)
            | Inr rawData \<Rightarrow>
                (case JSON_parse rawData of
                   Inl m \<Rightarrow> (Some (SyntaxError m), t)
                 | Inr projectData \<Rightarrow>
                     (case get_property projectData ''project_files'' of
                        Inl err \<Rightarrow> (Some err, t)
                      | Inr (Some (JArray project_files)) \<Rightarrow>
                          (case (if \<not> existsSync t projectRoot then mkdirSync t projectRoot
                                 else Inr t) of
                             Inl e \<Rightarrow> (Some (SystemError e), t)
                           | Inr t0 \<Rightarrow> steps (map (entry_action projectRoot) project_files) t0)
                      | Inr _ \<Rightarrow>
                          (Some (Error ''JSON file must have a root key project_files which is an array.''),
                           t)))))"




text \<open>A document that names one path twice.\<close>

definition twice_text :: string where
  \<open>twice_text =
     ''{"project_files":[{"name":"a.txt","content":"old"},{"name":"a.txt","content":"new"}]}''\<close>

definition twice_doc :: json where
  "twice_doc =
     JObject [(''project_files'', JArray
       [JObject [(''name'', JString ''a.txt''), (''content'', JString ''old'')],
        JObject [(''name'', JString ''a.txt''), (''content'', JString ''new'')]])]"

text \<open>\<^verbatim>\<open>JSON.stringify(v, null, 2)\<close> for a value the reader builds, that is strings and objects,
  with the keys in insertion order. Used for concrete runs of the reader script.\<close>

definition hex_digit :: "nat \<Rightarrow> char" where
  "hex_digit d = (''0123456789abcdef'' ! d)"

definition quote_char :: "char \<Rightarrow> string" where
  "quote_char c =
     (if c = CHR 0x22 then [CHR 0x5C, CHR 0x22]
      else if c = CHR 0x5C then [CHR 0x5C, CHR 0x5C]
      else if c = CHR 0x08 then [CHR 0x5C, CHR ''b'']
      else if c = CHR 0x0C then [CHR 0x5C, CHR ''f'']
      else if c = CHR 0x0A then [CHR 0x5C, CHR ''n'']
      else if c = CHR 0x0D then [CHR 0x5C, CHR ''r'']
      else if c = CHR 0x09 then [CHR 0x5C, CHR ''t'']
      else if (of_char c :: nat) < 32 then
        [CHR 0x5C, CHR ''u'', CHR ''0'', CHR ''0'',
         hex_digit (of_char c div 16), hex_digit (of_char c mod 16)]
      else [c])"

definition quote :: "string \<Rightarrow> string" where
  "quote s = [CHR 0x22] @ concat (map quote_char s) @ [CHR 0x22]"

fun stringify_indent :: "nat \<Rightarrow> json \<Rightarrow> string"
  and stringify_props :: "nat \<Rightarrow> (string \<times> json) list \<Rightarrow> string"
where
  "stringify_indent n (JString s) = quote s"
| "stringify_indent n (JObject props) =
     (if props = [] then ''{}''
      else ''{'' @ [CHR 0x0A] @ stringify_props (n + 2) props @ [CHR 0x0A] @ replicate n CHR '' '' @ ''}'')"
| "stringify_indent n v = ''null''"
| "stringify_props n [] = []"
| "stringify_props n (p # ps) =
     replicate n CHR '' '' @ quote (fst p) @ '': '' @ stringify_indent n (snd p)
       @ (if ps = [] then [] else '','' @ [CHR 0x0A] @ stringify_props n ps)"



definition twice_disk :: node where
  "twice_disk = Dir [(''work'', Dir [(''in.json'', File twice_text)])]"

definition dummy_project :: node where
  "dummy_project =
     Dir [(''src'', Dir [(''index.js'', File index_js),
                         (''utils.js'', File ''const add = (a, b) => a + b;'')]),
          (''test'', Dir [(''utils.test.js'', File ''// Test cases for utils.js'')]),
          (''package.json'', File package_json)]"

definition dummy_json :: json where
  "dummy_json =
     JObject [(''src'', JObject [(''index.js'', JString index_js),
                                 (''utils.js'', JString ''const add = (a, b) => a + b;'')]),
              (''test'', JObject [(''utils.test.js'', JString ''// Test cases for utils.js'')]),
              (''package.json'', JString package_json)]"

section \<open>The reader: one directory\<close>

lemma map_of_set_property:
  "map_of (set_property obj k v) = (if k = ''__proto__'' then map_of obj else (map_of obj)(k \<mapsto> v))"
  by (simp add: set_property_def update_conv')

lemma forEach_item_values:
  assumes "\<forall>k \<in> set items. \<exists>st. statSync fs (p @ [k]) = Inr st"
  shows "\<exists>r. forEach_item fs p items acc = Inr r \<and>
           (\<forall>k. map_of r k =
              (if k \<in> set items \<and> k \<noteq> ''__proto__'' then
                 (case entry_value fs (p @ [k]) of Some v \<Rightarrow> Some v | None \<Rightarrow> map_of acc k)
               else map_of acc k))"
  using assms
proof (induction items arbitrary: acc)
  case Nil
  then show ?case by simp
next
  case (Cons i items)
  from Cons.prems obtain st where st: "statSync fs (p @ [i]) = Inr st" by auto
  from Cons.prems have rest: "\<forall>k \<in> set items. \<exists>st. statSync fs (p @ [k]) = Inr st" by simp
  define acc' where "acc' = (case entry_value fs (p @ [i]) of Some v \<Rightarrow> set_property acc i v | None \<Rightarrow> acc)"
  have step: "forEach_item fs p (i # items) acc = forEach_item fs p items acc'"
    using st by (simp add: acc'_def entry_value_def split: sum.splits)
  from Cons.IH [OF rest, of acc'] obtain r where
    r: "forEach_item fs p items acc' = Inr r"
    and rk: "\<And>k. map_of r k =
              (if k \<in> set items \<and> k \<noteq> ''__proto__'' then
                 (case entry_value fs (p @ [k]) of Some v \<Rightarrow> Some v | None \<Rightarrow> map_of acc' k)
               else map_of acc' k)"
    by blast
  have acc'k: "\<And>k. map_of acc' k =
      (if k = i \<and> k \<noteq> ''__proto__'' then
         (case entry_value fs (p @ [k]) of Some v \<Rightarrow> Some v | None \<Rightarrow> map_of acc k)
       else map_of acc k)"
    by (auto simp: acc'_def map_of_set_property split: option.splits)
  show ?case
    unfolding step r
    by (rule exI [of _ r]) (auto simp: rk acc'k split: option.splits)
qed

lemma forEach_item_stat_fails:
  assumes "k \<in> set items" and "statSync fs (p @ [k]) = Inl e"
  shows "\<exists>k' e'. k' \<in> set items \<and> statSync fs (p @ [k']) = Inl e' \<and>
           forEach_item fs p items acc = Inl e'"
  using assms
proof (induction items arbitrary: acc)
  case Nil
  then show ?case by simp
next
  case (Cons i items)
  show ?case
  proof (cases "statSync fs (p @ [i])")
    case (Inl e')
    then have "forEach_item fs p (i # items) acc = Inl e'" by simp
    with Inl show ?thesis by auto
  next
    case (Inr st)
    with Cons.prems have "k \<in> set items" by auto
    from Cons.IH [OF this Cons.prems(2)] have
      "\<And>acc. \<exists>k' e'. k' \<in> set items \<and> statSync fs (p @ [k']) = Inl e' \<and>
           forEach_item fs p items acc = Inl e'" by blast
    with Inr show ?thesis
      by (simp add: Let_def split: sum.splits) blast
  qed
qed


lemma lookup_append:
  "lookup n (p @ q) = (case lookup n p of Inl e \<Rightarrow> Inl e | Inr m \<Rightarrow> lookup m q)"
  by (induction n p rule: lookup.induct) (auto split: option.splits)

lemma lookup_child:
  "lookup fs p = Inr (Dir es) \<Longrightarrow> lookup fs (p @ [k]) = (case map_of es k of None \<Rightarrow> Inl ENOENT | Some m \<Rightarrow> Inr m)"
  by (simp add: lookup_append split: option.splits)


lemma readDirectoryStructure_Dir:
  assumes dir: "lookup fs p = Inr (Dir es)"
    and ok: "\<forall>m \<in> snd ` set es. \<forall>e. m \<noteq> Broken e"
  shows "\<exists>r. readDirectoryStructure fs p = JObject r \<and>
           (\<forall>k. map_of r k =
              (if k \<noteq> ''__proto__'' then
                 (case map_of es k of None \<Rightarrow> None | Some m \<Rightarrow> entry_value fs (p @ [k]))
               else None))"
proof -
  have items: "readdirSync fs p = Inr (map fst es)"
    using dir by (simp add: readdirSync_def)
  have stats: "\<forall>k \<in> set (map fst es). \<exists>st. statSync fs (p @ [k]) = Inr st"
  proof
    fix k assume "k \<in> set (map fst es)"
    then obtain m where m: "map_of es k = Some m"
      by (metis map_of_eq_None_iff not_Some_eq set_map)
    then have "m \<in> snd ` set es" by (metis map_of_SomeD image_eqI snd_conv)
    with ok have nb: "\<forall>e. m \<noteq> Broken e" by blast
    from m dir have "lookup fs (p @ [k]) = Inr m" by (simp add: lookup_child)
    with nb show "\<exists>st. statSync fs (p @ [k]) = Inr st"
      by (cases m) (simp_all add: statSync_def)
  qed
  from forEach_item_values [OF stats, of "[]"] obtain r where
    r: "forEach_item fs p (map fst es) [] = Inr r"
    and rk: "\<And>k. map_of r k =
              (if k \<in> set (map fst es) \<and> k \<noteq> ''__proto__'' then
                 (case entry_value fs (p @ [k]) of Some v \<Rightarrow> Some v | None \<Rightarrow> map_of [] k)
               else map_of [] k)"
    by blast
  have "readDirectoryStructure fs p = JObject r"
    using items r by simp
  moreover have "map_of r k =
              (if k \<noteq> ''__proto__'' then
                 (case map_of es k of None \<Rightarrow> None | Some m \<Rightarrow> entry_value fs (p @ [k]))
               else None)" for k
  proof (cases "map_of es k")
    case None
    then have "k \<notin> set (map fst es)" by (simp add: map_of_eq_None_iff)
    with None show ?thesis by (simp add: rk)
  next
    case (Some m)
    then have "k \<in> set (map fst es)" by (metis map_of_eq_None_iff option.distinct(1) set_map)
    with Some show ?thesis by (simp add: rk split: option.splits)
  qed
  ultimately show ?thesis by blast
qed

lemma no_broken_entry: "no_broken (Dir es) \<Longrightarrow> map_of es k = Some m \<Longrightarrow> no_broken m"
  by (metis map_of_SomeD image_eqI snd_conv no_broken.simps(2))

lemma no_broken_not_Broken: "no_broken m \<Longrightarrow> m \<noteq> Broken e"
  by auto


text \<open>
  A directory entry named \<^verbatim>\<open>__proto__\<close> is never a property of the object returned for
  its directory, whatever it is.
\<close>

lemma proto_entry_dropped:
  assumes "lookup fs p = Inr (Dir es)" and "\<forall>m \<in> snd ` set es. \<forall>e. m \<noteq> Broken e"
  shows "\<exists>r. readDirectoryStructure fs p = JObject r \<and> map_of r ''__proto__'' = None"
proof -
  from readDirectoryStructure_Dir [OF assms] obtain r where
    "readDirectoryStructure fs p = JObject r"
    and "\<And>k. map_of r k =
              (if k \<noteq> ''__proto__'' then
                 (case map_of es k of None \<Rightarrow> None | Some m \<Rightarrow> entry_value fs (p @ [k]))
               else None)"
    by blast
  then show ?thesis by auto
qed

text \<open>
  C9. A directory is listed, and \<^verbatim>\<open>statSync\<close> throws for one of its entries: the
  exception leaves the \<^verbatim>\<open>forEach\<close>, and the function returns the error object of the
  first entry whose \<^verbatim>\<open>stat\<close> fails, for the whole directory. Nothing of the entries
  read before it is kept. Only a failing \<^verbatim>\<open>readFileSync\<close> is caught for the entry
  alone.
\<close>

theorem stat_failure_discards_directory:
  assumes "readdirSync fs dirPath = Inr items"
    and "item \<in> set items"
    and "statSync fs (dirPath @ [item]) = Inl err"
  shows "\<exists>k e. k \<in> set items \<and> statSync fs (dirPath @ [k]) = Inl e \<and>
           readDirectoryStructure fs dirPath = error_object e"
proof -
  from forEach_item_stat_fails [OF assms(2,3), of "[]"] obtain k e where
    "k \<in> set items" "statSync fs (dirPath @ [k]) = Inl e"
    "forEach_item fs dirPath items [] = Inl e"
    by blast
  with assms(1) show ?thesis
    by (auto simp: error_object_def)
qed

theorem stat_failure_discards_directory_witness:
  "readdirSync (Dir [(''a.txt'', File ''hi''), (''link'', Broken ELOOP), (''b.txt'', File ''yo'')]) []
     = Inr [''a.txt'', ''link'', ''b.txt'']
   \<and> statSync (Dir [(''a.txt'', File ''hi''), (''link'', Broken ELOOP), (''b.txt'', File ''yo'')]) [''link'']
     = Inl ELOOP
   \<and> readDirectoryStructure
       (Dir [(''a.txt'', File ''hi''), (''link'', Broken ELOOP), (''b.txt'', File ''yo'')]) []
     = error_object ELOOP"
  using stat_failure_discards_directory
    [of "Dir [(''a.txt'', File ''hi''), (''link'', Broken ELOOP), (''b.txt'', File ''yo'')]"
        "[]" "[''a.txt'', ''link'', ''b.txt'']" "''link''" ELOOP]
  by (auto simp: readdirSync_def statSync_def)



section \<open>The writer: one entry\<close>

lemma forEach_callback_step:
  "(case forEach_callback projectRoot file w of (err, w') \<Rightarrow> (err, tree w')) =
     step (entry_action projectRoot file) (tree w)"
proof (cases "get_property file ''name''")
  case (Inl err)
  then show ?thesis by (simp add: forEach_callback_def entry_action_def step_def)
next
  case name: (Inr name)
  show ?thesis
  proof (cases "truthy name")
    case False
    with name show ?thesis by (simp add: forEach_callback_def entry_action_def step_def emit_def)
  next
    case True
    show ?thesis
    proof (cases "get_property file ''content''")
      case (Inl err)
      with name True show ?thesis by (simp add: forEach_callback_def entry_action_def step_def)
    next
      case content: (Inr content)
      show ?thesis
      proof (cases "content = None")
        case True
        with name \<open>truthy name\<close> content show ?thesis
          by (simp add: forEach_callback_def entry_action_def step_def emit_def)
      next
        case False
        show ?thesis
        proof (cases "\<exists>s. name = Some (JString s)")
          case False
          with name \<open>truthy name\<close> content \<open>content \<noteq> None\<close> show ?thesis
            by (auto simp add: forEach_callback_def entry_action_def step_def
                split: option.splits json.splits)
        next
          case True
          then obtain s where s: "name = Some (JString s)" ..
          show ?thesis
          proof (cases "\<exists>c. content = Some (JString c)")
            case True
            then obtain c where "content = Some (JString c)" ..
            with name \<open>truthy name\<close> content s show ?thesis
              by (simp add: forEach_callback_def entry_action_def step_def Let_def emit_def
                  split: sum.splits)
          next
            case False
            then have "(case content of Some (JString c) \<Rightarrow> Some c | _ \<Rightarrow> None) = None"
              by (auto split: option.splits json.splits)
            moreover from False \<open>content \<noteq> None\<close> have
              "\<And>w1. (case content of
                      Some (JString c) \<Rightarrow>
                        (case writeFileSync (tree w1) (path_join projectRoot s) c of
                           Inl e \<Rightarrow> (Some (SystemError e), w1)
                         | Inr t \<Rightarrow> (None, emit (Log_CreatedFile s) (w1\<lparr>tree := t\<rparr>)))
                    | _ \<Rightarrow> (Some (TypeError ''The data argument must be of type string''), w1))
                  = (Some (TypeError ''The data argument must be of type string''), w1)"
              by (auto split: option.splits json.splits)
            ultimately show ?thesis
              using name \<open>truthy name\<close> content s \<open>content \<noteq> None\<close>
              by (simp add: forEach_callback_def entry_action_def step_def Let_def emit_def
                  split: sum.splits)
          qed
        qed
      qed
    qed
  qed
qed

lemma forEach_file_steps:
  "(case forEach_file projectRoot files w of (err, w') \<Rightarrow> (err, tree w')) =
     steps (map (entry_action projectRoot) files) (tree w)"
proof (induction files arbitrary: w)
  case Nil
  then show ?case by simp
next
  case (Cons x xs)
  obtain err w' where cb: "forEach_callback projectRoot x w = (err, w')"
    by (cases "forEach_callback projectRoot x w")
  with forEach_callback_step [of projectRoot x w]
  have st: "step (entry_action projectRoot x) (tree w) = (err, tree w')" by simp
  show ?case
  proof (cases err)
    case None
    with cb st Cons.IH [of w'] show ?thesis by simp
  next
    case (Some e)
    with cb st show ?thesis by simp
  qed
qed

lemma steps_append:
  "steps (as @ bs) t =
     (case steps as t of (Some err, t') \<Rightarrow> (Some err, t') | (None, t') \<Rightarrow> steps bs t')"
  by (induction as arbitrary: t) (auto split: prod.splits option.splits)


lemma map_of_snoc:
  "map_of (es @ [(c, m)]) k = (case map_of es k of Some x \<Rightarrow> Some x | None \<Rightarrow> if k = c then Some m else None)"
  by (simp add: map_add_def split: option.splits)

lemma writable_Dir: "writable n q \<Longrightarrow> \<exists>es c cs. n = Dir es \<and> q = c # cs"
  by (cases n; cases q) auto

lemma write_at_ok:
  "writable n q \<Longrightarrow> \<exists>es. lookup n (butlast q) = Inr (Dir es) \<Longrightarrow>
     \<exists>n'. write_at n q s = Inr n' \<and> lookup n' q = Inr (File s)"
proof (induction q arbitrary: n)
  case Nil
  then show ?case using writable_Dir by blast
next
  case (Cons c cs)
  from writable_Dir [OF Cons.prems(1)] obtain es where n: "n = Dir es" by auto
  show ?case
  proof (cases "map_of es c")
    case None
    with Cons.prems(2) n have "cs = []" by (auto split: if_splits)
    with None n show ?thesis by (simp add: map_of_snoc del: map_of_append)
  next
    case (Some m)
    show ?thesis
    proof (cases "cs = []")
      case True
      with Some Cons.prems(1) n obtain old where "m = File old"
        by (cases m) auto
      with True Some n show ?thesis by (simp add: update_conv')
    next
      case False
      with Some Cons.prems n have "writable m cs" "\<exists>es. lookup m (butlast cs) = Inr (Dir es)"
        by auto
      from Cons.IH [OF this] obtain m' where "write_at m cs s = Inr m'" "lookup m' cs = Inr (File s)"
        by blast
      with Some n show ?thesis by (simp add: update_conv')
    qed
  qed
qed

lemma mkdirp_writable:
  "writable n (d @ [c]) \<Longrightarrow>
     \<exists>n1. mkdirp_at n d = Inr n1 \<and> writable n1 (d @ [c]) \<and> (\<exists>es. lookup n1 d = Inr (Dir es))"
proof (induction d arbitrary: n)
  case Nil
  then show ?case using writable_Dir by fastforce
next
  case (Cons k ks)
  from writable_Dir [OF Cons.prems] obtain es where n: "n = Dir es" by auto
  show ?case
  proof (cases "map_of es k")
    case None
    have "writable (Dir []) (ks @ [c])" by (cases ks) auto
    from Cons.IH [OF this] obtain m' where m': "mkdirp_at (Dir []) ks = Inr m'"
      "writable m' (ks @ [c])" "\<exists>es. lookup m' ks = Inr (Dir es)" by blast
    with None n show ?thesis by (simp add: map_of_snoc del: map_of_append)
  next
    case (Some m)
    with Cons.prems n have "writable m (ks @ [c])" by simp
    from Cons.IH [OF this] obtain m' where m': "mkdirp_at m ks = Inr m'"
      "writable m' (ks @ [c])" "\<exists>es. lookup m' ks = Inr (Dir es)" by blast
    with Some n show ?thesis by (simp add: update_conv')
  qed
qed

lemma existsSync_Cons:
  "existsSync (Dir es) (k # ks) = (case map_of es k of None \<Rightarrow> False | Some m \<Rightarrow> existsSync m ks)"
  by (simp add: existsSync_def statSync_def split: option.splits)

lemma exists_writable_Dir:
  "existsSync n d \<Longrightarrow> writable n (d @ [c]) \<Longrightarrow> \<exists>es. lookup n d = Inr (Dir es)"
proof (induction d arbitrary: n)
  case Nil
  then show ?case using writable_Dir by fastforce
next
  case (Cons k ks)
  from writable_Dir [OF Cons.prems(2)] obtain es where n: "n = Dir es" by auto
  with Cons.prems obtain m where "map_of es k = Some m" "existsSync m ks" "writable m (ks @ [c])"
    by (auto simp: existsSync_Cons split: option.splits)
  with Cons.IH n show ?case by simp
qed

lemma lookup_prefix_Dir:
  assumes "lookup n q = Inr m" and "k < length q"
  shows "\<exists>es. lookup n (take k q) = Inr (Dir es)"
proof -
  from assms(1) lookup_append [of n "take k q" "drop k q"]
  obtain x where x: "lookup n (take k q) = Inr x" "lookup x (drop k q) = Inr m"
    by (auto split: sum.splits)
  from assms(2) obtain c cs where "drop k q = c # cs" by (cases "drop k q") auto
  with x(2) obtain es where "x = Dir es" by (cases x) auto
  with x(1) show ?thesis by simp
qed

lemma callback_valid:
  assumes name: "get_property file ''name'' = Inr (Some (JString s))" and s: "s \<noteq> []"
    and content: "get_property file ''content'' = Inr (Some (JString c))"
    and join: "path_join projectRoot s = (target, False)"
    and wr: "writable (tree w) target"
  shows "\<exists>t'. lookup t' target = Inr (File c) \<and>
           forEach_callback projectRoot file w =
             (None, w\<lparr>tree := t',
                      console := console w
                        @ (if existsSync (tree w) (butlast target) then []
                           else [Log_CreatedDirectory (butlast target)])
                        @ [Log_CreatedFile s]\<rparr>)"
proof -
  from writable_Dir [OF wr] have "target \<noteq> []" by auto
  then have tgt: "target = butlast target @ [last target]" by simp
  show ?thesis
  proof (cases "existsSync (tree w) (butlast target)")
    case True
    with wr tgt have "\<exists>es. lookup (tree w) (butlast target) = Inr (Dir es)"
      using exists_writable_Dir by metis
    from write_at_ok [OF wr this, of c] obtain t' where
      t': "write_at (tree w) target c = Inr t'" "lookup t' target = Inr (File c)" by blast
    show ?thesis
      by (rule exI [of _ t'])
        (use True name s content join t' in
          \<open>simp add: forEach_callback_def Let_def path_dirname_def writeFileSync_def emit_def\<close>)
  next
    case False
    from wr tgt have "writable (tree w) (butlast target @ [last target])" by simp
    from mkdirp_writable [OF this] tgt obtain t1 where
      t1: "mkdirp_at (tree w) (butlast target) = Inr t1" "writable t1 target"
      "\<exists>es. lookup t1 (butlast target) = Inr (Dir es)" by auto
    from write_at_ok [OF t1(2,3), of c] obtain t' where
      t': "write_at t1 target c = Inr t'" "lookup t' target = Inr (File c)" by blast
    show ?thesis
      by (rule exI [of _ t'])
        (use False t1(1) name s content join t' in
          \<open>simp add: forEach_callback_def Let_def path_dirname_def writeFileSync_def emit_def
            mkdirSync_recursive_def\<close>)
  qed
qed

text \<open>
  An element \<^verbatim>\<open>null\<close> of the list is no entry to skip: reading its \<^verbatim>\<open>name\<close> throws, and
  the exception ends the loop.
\<close>

lemma null_entry_throws:
  "forEach_file projectRoot (JNull # rest) w = (Some (TypeError ''Cannot read properties of null''), w)"
  by (simp add: forEach_callback_def get_property_def)

text \<open>
  C3. The input file is read, and its text is not JSON, or the parsed value has no
  \<^verbatim>\<open>project_files\<close> property that is an array (the value may be \<^verbatim>\<open>null\<close>, a
  primitive, an object without the key, or hold anything else under it): the process
  exits with code 1, the disk is as it was, and after the two opening lines the
  console holds one line, an error message.
\<close>

theorem schema_rejection:
  assumes "readFileSync (tree w) (path_resolve cwd jsonFilePath) = Inr rawData"
    and "(\<exists>m. JSON_parse rawData = Inl m) \<or>
         (\<exists>v. JSON_parse rawData = Inr v \<and>
              (\<forall>xs. get_property v ''project_files'' \<noteq> Inr (Some (JArray xs))))"
  shows "snd (generateProject JSON_parse cwd jsonFilePath outputDir w) = 1
         \<and> tree (fst (generateProject JSON_parse cwd jsonFilePath outputDir w)) = tree w
         \<and> (\<exists>line. console (fst (generateProject JSON_parse cwd jsonFilePath outputDir w)) =
                console w @ [Log_Reading (path_resolve cwd jsonFilePath),
                             Log_Generating (path_resolve cwd outputDir), line]
              \<and> is_error_line line)"
proof -
  have ex: "existsSync (tree w) (path_resolve cwd jsonFilePath)"
    using assms(1) by (auto simp: existsSync_def statSync_def readFileSync_def split: sum.splits node.splits)
  from assms(2) show ?thesis
  proof
    assume "\<exists>m. JSON_parse rawData = Inl m"
    then obtain m where "JSON_parse rawData = Inl m" ..
    with ex assms(1) show ?thesis
      by (simp add: generateProject_def generateProject_try_def Let_def emit_def)
  next
    assume "\<exists>v. JSON_parse rawData = Inr v \<and>
              (\<forall>xs. get_property v ''project_files'' \<noteq> Inr (Some (JArray xs)))"
    then obtain v where v: "JSON_parse rawData = Inr v"
      and na: "\<forall>xs. get_property v ''project_files'' \<noteq> Inr (Some (JArray xs))" by blast
    show ?thesis
    proof (cases "get_property v ''project_files''")
      case (Inl err)
      then obtain t where "err = TypeError t"
        by (auto simp: get_property_def split: json.splits)
      with Inl ex assms(1) v show ?thesis
        by (simp add: generateProject_def generateProject_try_def Let_def emit_def)
    next
      case (Inr pf)
      with na have "\<forall>xs. pf \<noteq> Some (JArray xs)" by simp
      with Inr ex assms(1) v show ?thesis
        by (auto simp add: generateProject_def generateProject_try_def Let_def emit_def
            split: option.splits json.splits)
    qed
  qed
qed

theorem schema_rejection_witness:
  "snd (generateProject (parse_known [(''{}'', JObject [])]) [''work''] ''in.json'' ''out''
         \<lparr>tree = Dir [(''work'', Dir [(''in.json'', File ''{}'')])], console = []\<rparr>) = 1
   \<and> tree (fst (generateProject (parse_known [(''{}'', JObject [])]) [''work''] ''in.json'' ''out''
         \<lparr>tree = Dir [(''work'', Dir [(''in.json'', File ''{}'')])], console = []\<rparr>))
       = Dir [(''work'', Dir [(''in.json'', File ''{}'')])]
   \<and> snd (generateProject (parse_known []) [''work''] ''in.json'' ''out''
         \<lparr>tree = Dir [(''work'', Dir [(''in.json'', File ''not json'')])], console = []\<rparr>) = 1
   \<and> tree (fst (generateProject (parse_known []) [''work''] ''in.json'' ''out''
         \<lparr>tree = Dir [(''work'', Dir [(''in.json'', File ''not json'')])], console = []\<rparr>))
       = Dir [(''work'', Dir [(''in.json'', File ''not json'')])]"
  using schema_rejection
    [of "\<lparr>tree = Dir [(''work'', Dir [(''in.json'', File ''{}'')])], console = []\<rparr>"
        "[''work'']" "''in.json''" "''{}''" "parse_known [(''{}'', JObject [])]" "''out''"]
    schema_rejection
    [of "\<lparr>tree = Dir [(''work'', Dir [(''in.json'', File ''not json'')])], console = []\<rparr>"
        "[''work'']" "''in.json''" "''not json''" "parse_known []" "''out''"]
  by (simp add: readFileSync_def path_resolve_def normalizeString_def isAbsolute_def
      parse_known_def get_property_def)

text \<open>
  C6. An entry with a non-empty string \<^verbatim>\<open>name\<close> and a string \<^verbatim>\<open>content\<close>, whose
  joined path has no trailing separator and can take a file: the callback returns
  normally, the target is then a regular file holding exactly \<^verbatim>\<open>content\<close> (a file
  that was there is overwritten), and every proper prefix of the target is a directory,
  made if it was absent and left alone if it was there.
\<close>

theorem valid_entry_written:
  assumes "get_property file ''name'' = Inr (Some (JString s))" and "s \<noteq> []"
    and "get_property file ''content'' = Inr (Some (JString c))"
    and "path_join projectRoot s = (target, False)"
    and "writable (tree w) target"
  shows "\<exists>w'. forEach_callback projectRoot file w = (None, w') \<and>
           lookup (tree w') target = Inr (File c) \<and>
           (\<forall>k < length target. \<exists>es. lookup (tree w') (take k target) = Inr (Dir es))"
proof -
  from callback_valid [OF assms] obtain t' where
    t': "lookup t' target = Inr (File c)"
    and cb: "forEach_callback projectRoot file w =
             (None, w\<lparr>tree := t',
                      console := console w
                        @ (if existsSync (tree w) (butlast target) then []
                           else [Log_CreatedDirectory (butlast target)])
                        @ [Log_CreatedFile s]\<rparr>)"
    by blast
  from t' lookup_prefix_Dir have "\<forall>k < length target. \<exists>es. lookup t' (take k target) = Inr (Dir es)"
    by blast
  with t' cb show ?thesis by simp
qed

theorem valid_entry_written_witness:
  "path_join [''out''] ''a/b/c.txt'' = ([''out'', ''a'', ''b'', ''c.txt''], False)
   \<and> writable (Dir [(''out'', Dir [])]) [''out'', ''a'', ''b'', ''c.txt'']
   \<and> (\<exists>w'. forEach_callback [''out'']
              (JObject [(''name'', JString ''a/b/c.txt''), (''content'', JString ''hello'')])
              \<lparr>tree = Dir [(''out'', Dir [])], console = []\<rparr> = (None, w')
          \<and> lookup (tree w') [''out'', ''a'', ''b'', ''c.txt''] = Inr (File ''hello'')
          \<and> (\<exists>es. lookup (tree w') [''out'', ''a''] = Inr (Dir es))
          \<and> (\<exists>es. lookup (tree w') [''out'', ''a'', ''b''] = Inr (Dir es)))"
proof -
  have j: "path_join [''out''] ''a/b/c.txt'' = ([''out'', ''a'', ''b'', ''c.txt''], False)"
    by (simp add: path_join_def normalizeString_def)
  have wr: "writable (tree \<lparr>tree = Dir [(''out'', Dir [])], console = []\<rparr>)
              [''out'', ''a'', ''b'', ''c.txt'']"
    by simp
  have n: "get_property (JObject [(''name'', JString ''a/b/c.txt''), (''content'', JString ''hello'')])
             ''name'' = Inr (Some (JString ''a/b/c.txt''))"
    and c: "get_property (JObject [(''name'', JString ''a/b/c.txt''), (''content'', JString ''hello'')])
             ''content'' = Inr (Some (JString ''hello''))"
    by (simp_all add: get_property_def)
  have ne: "''a/b/c.txt'' \<noteq> []" by simp
  from valid_entry_written [OF n ne c j wr] obtain w' where
    cb: "forEach_callback [''out'']
              (JObject [(''name'', JString ''a/b/c.txt''), (''content'', JString ''hello'')])
              \<lparr>tree = Dir [(''out'', Dir [])], console = []\<rparr> = (None, w')"
    and f: "lookup (tree w') [''out'', ''a'', ''b'', ''c.txt''] = Inr (File ''hello'')"
    and d: "\<forall>k < length [''out'', ''a'', ''b'', ''c.txt''].
              \<exists>es. lookup (tree w') (take k [''out'', ''a'', ''b'', ''c.txt'']) = Inr (Dir es)"
    by blast
  from d [rule_format, of 2] have d2: "\<exists>es. lookup (tree w') [''out'', ''a''] = Inr (Dir es)"
    by (simp add: numeral_2_eq_2)
  from d [rule_format, of 3] have d3: "\<exists>es. lookup (tree w') [''out'', ''a'', ''b''] = Inr (Dir es)"
    by (simp add: numeral_3_eq_3)
  from j wr cb f d2 d3 show ?thesis by auto
qed



text \<open>
  C10. An entry whose \<^verbatim>\<open>name\<close> is the empty string is skipped with the warning, as an
  entry without a name is. An entry with a non-empty name and the empty string as
  \<^verbatim>\<open>content\<close> is not skipped: where its path can take a file, the callback returns
  normally, the target is an empty regular file, and the last line printed is the one
  for a created file.
\<close>

theorem empty_name_skipped_empty_content_written:
  "(get_property file ''name'' = Inr (Some (JString [])) \<longrightarrow>
      forEach_callback projectRoot file w = (None, emit (Warn_Skipping file) w))
   \<and> (get_property file' ''name'' = Inr (Some (JString s)) \<and> s \<noteq> [] \<and>
      get_property file' ''content'' = Inr (Some (JString [])) \<and>
      path_join projectRoot s = (target, False) \<and> writable (tree w) target \<longrightarrow>
      (\<exists>w'. forEach_callback projectRoot file' w = (None, w') \<and>
            lookup (tree w') target = Inr (File []) \<and>
            last (console w') = Log_CreatedFile s))"
proof (intro conjI impI)
  assume "get_property file ''name'' = Inr (Some (JString []))"
  then show "forEach_callback projectRoot file w = (None, emit (Warn_Skipping file) w)"
    by (simp add: forEach_callback_def)
next
  assume h: "get_property file' ''name'' = Inr (Some (JString s)) \<and> s \<noteq> [] \<and>
      get_property file' ''content'' = Inr (Some (JString [])) \<and>
      path_join projectRoot s = (target, False) \<and> writable (tree w) target"
  then have "\<exists>t'. lookup t' target = Inr (File []) \<and>
           forEach_callback projectRoot file' w =
             (None, w\<lparr>tree := t',
                      console := console w
                        @ (if existsSync (tree w) (butlast target) then []
                           else [Log_CreatedDirectory (butlast target)])
                        @ [Log_CreatedFile s]\<rparr>)"
    by (intro callback_valid) simp_all
  then show "\<exists>w'. forEach_callback projectRoot file' w = (None, w') \<and>
            lookup (tree w') target = Inr (File []) \<and>
            last (console w') = Log_CreatedFile s"
    by auto
qed

theorem empty_name_skipped_empty_content_written_witness:
  "forEach_callback [''out''] (JObject [(''name'', JString []), (''content'', JString ''x'')])
       \<lparr>tree = Dir [(''out'', Dir [])], console = []\<rparr>
     = (None, emit (Warn_Skipping (JObject [(''name'', JString []), (''content'', JString ''x'')]))
                \<lparr>tree = Dir [(''out'', Dir [])], console = []\<rparr>)
   \<and> (\<exists>w'. forEach_callback [''out''] (JObject [(''name'', JString ''e.txt''), (''content'', JString [])])
              \<lparr>tree = Dir [(''out'', Dir [])], console = []\<rparr> = (None, w')
          \<and> lookup (tree w') [''out'', ''e.txt''] = Inr (File [])
          \<and> last (console w') = Log_CreatedFile ''e.txt'')"
  using empty_name_skipped_empty_content_written
    [of "JObject [(''name'', JString []), (''content'', JString ''x'')]" "[''out'']"
        "\<lparr>tree = Dir [(''out'', Dir [])], console = []\<rparr>"
        "JObject [(''name'', JString ''e.txt''), (''content'', JString [])]" "''e.txt''"
        "[''out'', ''e.txt'']"]
  by (simp add: get_property_def path_join_def normalizeString_def)

section \<open>The writer: the disk through a run\<close>

lemma write_at_ConsE:
  assumes "write_at n (k # ks) s = Inr n'"
  obtains es where "n = Dir es" "map_of es k = None" "ks = []" "n' = Dir (es @ [(k, File s)])"
  | es m m' where "n = Dir es" "map_of es k = Some m" "write_at m ks s = Inr m'"
      "n' = Dir (AList.update k m' es)"
  using assms by (cases n) (auto split: option.splits sum.splits if_splits)

lemma mkdirp_at_ConsE:
  assumes "mkdirp_at n (k # ks) = Inr n'"
  obtains es m' where "n = Dir es" "map_of es k = None" "mkdirp_at (Dir []) ks = Inr m'"
      "n' = Dir (es @ [(k, m')])"
  | es m m' where "n = Dir es" "map_of es k = Some m" "mkdirp_at m ks = Inr m'"
      "n' = Dir (AList.update k m' es)"
  using assms by (cases n) (auto split: option.splits sum.splits if_splits)

lemma mkdir_at_ConsE:
  assumes "mkdir_at n (k # ks) = Inr n'"
  obtains es where "n = Dir es" "map_of es k = None" "ks = []" "n' = Dir (es @ [(k, Dir [])])"
  | es m m' where "n = Dir es" "map_of es k = Some m" "mkdir_at m ks = Inr m'"
      "n' = Dir (AList.update k m' es)"
  using assms by (cases n) (auto split: option.splits sum.splits if_splits)

lemma write_at_NilE:
  assumes "write_at n [] s = Inr n'"
  obtains old where "n = File old" "n' = File s"
  using assms by (cases n) auto

lemma mkdirp_at_Nil: "mkdirp_at n [] = Inr n' \<Longrightarrow> n' = n"
  by (cases n) auto

lemma lookup_Dir_Cons:
  "lookup (Dir es) (k # ks) = Inr x \<longleftrightarrow> (\<exists>m. map_of es k = Some m \<and> lookup m ks = Inr x)"
  by (auto split: option.splits)

lemma write_at_result: "write_at n q s = Inr n' \<Longrightarrow> lookup n' q = Inr (File s)"
proof (induction q arbitrary: n n')
  case Nil
  then show ?case by (auto elim: write_at_NilE)
next
  case (Cons k ks)
  from Cons.prems show ?case
  proof (cases rule: write_at_ConsE)
    case (1 es)
    then show ?thesis by (simp add: map_of_snoc del: map_of_append)
  next
    case (2 es m m')
    with Cons.IH show ?thesis by (simp add: update_conv')
  qed
qed

lemma write_at_keeps_file:
  "write_at n q s = Inr n' \<Longrightarrow> lookup n p = Inr (File c) \<Longrightarrow> p \<noteq> q \<Longrightarrow>
     lookup n' p = Inr (File c)"
proof (induction q arbitrary: n n' p)
  case Nil
  then show ?case by (cases p) (auto elim!: write_at_NilE)
next
  case (Cons k ks)
  from Cons.prems(1) show ?case
  proof (cases rule: write_at_ConsE)
    case (1 es)
    with Cons.prems(2) show ?thesis
      by (cases p) (auto simp: map_of_snoc simp del: map_of_append split: option.splits)
  next
    case (2 es m m')
    with Cons.prems(2) obtain k' ps mp where p: "p = k' # ps"
      and mp: "map_of es k' = Some mp" "lookup mp ps = Inr (File c)"
      by (cases p) (auto split: option.splits)
    show ?thesis
    proof (cases "k' = k")
      case True
      with Cons.prems(3) p 2 mp have "lookup m ps = Inr (File c)" "ps \<noteq> ks" by auto
      from Cons.IH [OF 2(3) this] True p 2(4) show ?thesis by (simp add: update_conv')
    next
      case False
      with p mp 2(4) show ?thesis by (simp add: update_conv')
    qed
  qed
qed

lemma mkdirp_keeps_file:
  "mkdirp_at n d = Inr n' \<Longrightarrow> lookup n p = Inr (File c) \<Longrightarrow> lookup n' p = Inr (File c)"
proof (induction d arbitrary: n n' p)
  case Nil
  then show ?case by (auto dest: mkdirp_at_Nil)
next
  case (Cons k ks)
  from Cons.prems(1) show ?case
  proof (cases rule: mkdirp_at_ConsE)
    case (1 es m')
    with Cons.prems(2) show ?thesis
      by (cases p) (auto simp: map_of_snoc simp del: map_of_append split: option.splits)
  next
    case (2 es m m')
    with Cons.prems(2) obtain k' ps mp where p: "p = k' # ps"
      and mp: "map_of es k' = Some mp" "lookup mp ps = Inr (File c)"
      by (cases p) (auto split: option.splits)
    show ?thesis
    proof (cases "k' = k")
      case True
      with p 2 mp have "lookup m ps = Inr (File c)" by auto
      from Cons.IH [OF 2(3) this] True p 2(4) show ?thesis by (simp add: update_conv')
    next
      case False
      with p mp 2(4) show ?thesis by (simp add: update_conv')
    qed
  qed
qed

lemma statSync_stat_of:
  "statSync t p = (case lookup t p of Inl e \<Rightarrow> Inl e | Inr n \<Rightarrow> stat_of n)"
  by (simp add: statSync_def stat_of_def split: sum.splits node.splits)

lemma stat_of_Dir [simp]: "stat_of (Dir es) = Inr (Stats True False)"
  by (simp add: stat_of_def)

lemma stat_of_File [simp]: "stat_of (File s) = Inr (Stats False True)"
  by (simp add: stat_of_def)

lemma write_at_keeps_stat:
  "write_at n q s = Inr n' \<Longrightarrow> lookup n p = Inr x \<Longrightarrow>
     \<exists>x'. lookup n' p = Inr x' \<and> stat_of x' = stat_of x"
proof (induction q arbitrary: n n' p x)
  case Nil
  then show ?case by (cases p) (auto elim!: write_at_NilE)
next
  case (Cons k ks)
  from Cons.prems(1) show ?case
  proof (cases rule: write_at_ConsE)
    case (1 es)
    with Cons.prems(2) show ?thesis
      by (cases p) (auto simp: map_of_snoc simp del: map_of_append split: option.splits)
  next
    case (2 es m m')
    show ?thesis
    proof (cases p)
      case Nil
      with Cons.prems(2) 2 show ?thesis by auto
    next
      case p: (Cons k' ps)
      with Cons.prems(2) 2 obtain mp where mp: "map_of es k' = Some mp" "lookup mp ps = Inr x"
        by (auto split: option.splits)
      show ?thesis
      proof (cases "k' = k")
        case True
        with 2 mp have "lookup m ps = Inr x" by auto
        from Cons.IH [OF 2(3) this] True p 2(4) show ?thesis by (simp add: update_conv')
      next
        case False
        with p mp 2(4) show ?thesis by (simp add: update_conv')
      qed
    qed
  qed
qed

lemma mkdirp_keeps_stat:
  "mkdirp_at n d = Inr n' \<Longrightarrow> lookup n p = Inr x \<Longrightarrow>
     \<exists>x'. lookup n' p = Inr x' \<and> stat_of x' = stat_of x"
proof (induction d arbitrary: n n' p x)
  case Nil
  then show ?case by (auto dest: mkdirp_at_Nil)
next
  case (Cons k ks)
  from Cons.prems(1) show ?case
  proof (cases rule: mkdirp_at_ConsE)
    case (1 es m')
    with Cons.prems(2) show ?thesis
      by (cases p) (auto simp: map_of_snoc simp del: map_of_append split: option.splits)
  next
    case (2 es m m')
    show ?thesis
    proof (cases p)
      case Nil
      with Cons.prems(2) 2 show ?thesis by auto
    next
      case p: (Cons k' ps)
      with Cons.prems(2) 2 obtain mp where mp: "map_of es k' = Some mp" "lookup mp ps = Inr x"
        by (auto split: option.splits)
      show ?thesis
      proof (cases "k' = k")
        case True
        with 2 mp have "lookup m ps = Inr x" by auto
        from Cons.IH [OF 2(3) this] True p 2(4) show ?thesis by (simp add: update_conv')
      next
        case False
        with p mp 2(4) show ?thesis by (simp add: update_conv')
      qed
    qed
  qed
qed

lemma existsSync_lookup:
  "existsSync t p \<longleftrightarrow> (\<exists>x st. lookup t p = Inr x \<and> stat_of x = Inr st)"
  by (auto simp: existsSync_def statSync_stat_of split: sum.splits)

lemma write_at_keeps_exists:
  "write_at n q s = Inr n' \<Longrightarrow> existsSync n p \<Longrightarrow> existsSync n' p"
  unfolding existsSync_lookup using write_at_keeps_stat by metis

lemma mkdirp_keeps_exists:
  "mkdirp_at n d = Inr n' \<Longrightarrow> existsSync n p \<Longrightarrow> existsSync n' p"
  unfolding existsSync_lookup using mkdirp_keeps_stat by metis

lemma mkdirp_exists: "mkdirp_at n d = Inr n' \<Longrightarrow> existsSync n' d"
proof (induction d arbitrary: n n')
  case Nil
  then show ?case by (cases n) (auto simp: existsSync_lookup stat_of_def)
next
  case (Cons k ks)
  from Cons.prems show ?case
  proof (cases rule: mkdirp_at_ConsE)
    case (1 es m')
    with Cons.IH show ?thesis by (simp add: existsSync_Cons map_of_snoc del: map_of_append)
  next
    case (2 es m m')
    with Cons.IH show ?thesis by (simp add: existsSync_Cons update_conv')
  qed
qed

lemma mkdir_exists: "mkdir_at n d = Inr n' \<Longrightarrow> existsSync n' d"
proof (induction d arbitrary: n n')
  case Nil
  then show ?case by simp
next
  case (Cons k ks)
  from Cons.prems show ?case
  proof (cases rule: mkdir_at_ConsE)
    case (1 es)
    then show ?thesis
      by (simp add: existsSync_Cons map_of_snoc existsSync_lookup del: map_of_append)
  next
    case (2 es m m')
    with Cons.IH show ?thesis by (simp add: existsSync_Cons update_conv')
  qed
qed



lemma no_broken_snoc:
  "no_broken (Dir es) \<Longrightarrow> no_broken m' \<Longrightarrow> no_broken (Dir (es @ [(k, m')]))"
  by auto

lemma no_broken_at_Nil [simp]: "no_broken_at n [] = no_broken n"
  by (simp add: no_broken_at_def)


lemma no_broken_at_File [simp]: "no_broken_at (File s) p"
  by (cases p) (simp_all add: no_broken_at_def)

lemma no_broken_at_empty [simp]: "no_broken_at (Dir []) p"
  by (cases p) (simp_all add: no_broken_at_def)

lemma no_broken_at_entry:
  "no_broken (Dir es) \<Longrightarrow> map_of es k = Some m \<Longrightarrow> no_broken m"
  by (rule no_broken_entry)




lemma step_cases:
  assumes "step a t = (err, t')"
  obtains (skip) "a = Skip" "err = None" "t' = t"
  | (fail) e where "a = Fail e" "err = Some e" "t' = t"
  | (mkdir_fails) q tr d e where "a = Put (q, tr) d" "\<not> existsSync t (butlast q)"
      "mkdirp_at t (butlast q) = Inl e" "err = Some (SystemError e)" "t' = t"
  | (bad_data) q tr t1 where "a = Put (q, tr) None"
      "if existsSync t (butlast q) then t1 = t else mkdirp_at t (butlast q) = Inr t1"
      "err = Some (TypeError ''The data argument must be of type string'')" "t' = t1"
  | (write_fails) q tr c t1 e where "a = Put (q, tr) (Some c)"
      "if existsSync t (butlast q) then t1 = t else mkdirp_at t (butlast q) = Inr t1"
      "writeFileSync t1 (q, tr) c = Inl e" "err = Some (SystemError e)" "t' = t1"
  | (written) q tr c t1 where "a = Put (q, tr) (Some c)"
      "if existsSync t (butlast q) then t1 = t else mkdirp_at t (butlast q) = Inr t1"
      "writeFileSync t1 (q, tr) c = Inr t'" "err = None"
proof (cases a)
  case Skip
  with assms skip show ?thesis by (simp add: step_def)
next
  case (Fail e)
  with assms fail show ?thesis by (simp add: step_def)
next
  case (Put f d)
  obtain q tr where f: "f = (q, tr)" by (cases f)
  define r where "r = (if \<not> existsSync t (butlast q) then mkdirp_at t (butlast q) else Inr t)"
  have st: "step a t =
      (case r of
         Inl e \<Rightarrow> (Some (SystemError e), t)
       | Inr t1 \<Rightarrow>
           (case d of
              None \<Rightarrow> (Some (TypeError ''The data argument must be of type string''), t1)
            | Some c \<Rightarrow>
                (case writeFileSync t1 (q, tr) c of
                   Inl e \<Rightarrow> (Some (SystemError e), t1)
                 | Inr t2 \<Rightarrow> (None, t2))))"
    by (simp add: step_def Put f r_def path_dirname_def mkdirSync_recursive_def)
  show ?thesis
  proof (cases r)
    case (Inl e)
    then have "\<not> existsSync t (butlast q)" "mkdirp_at t (butlast q) = Inl e"
      by (auto simp: r_def split: if_splits)
    moreover from Inl st assms have "err = Some (SystemError e)" "t' = t" by simp_all
    ultimately show ?thesis using Put f by (intro mkdir_fails [of q tr d e]) simp_all
  next
    case (Inr t1)
    then have cond: "if existsSync t (butlast q) then t1 = t else mkdirp_at t (butlast q) = Inr t1"
      by (auto simp: r_def split: if_splits)
    show ?thesis
    proof (cases d)
      case None
      with Inr st assms have "err = Some (TypeError ''The data argument must be of type string'')"
        "t' = t1" by simp_all
      with cond Put f None show ?thesis by (intro bad_data [of q tr t1]) simp_all
    next
      case (Some c)
      show ?thesis
      proof (cases "writeFileSync t1 (q, tr) c")
        case wf: (Inl e)
        with Inr Some st assms have "err = Some (SystemError e)" "t' = t1" by simp_all
        with cond Put f Some wf show ?thesis by (intro write_fails [of q tr c t1 e]) simp_all
      next
        case wf: (Inr t2)
        with Inr Some st assms have "err = None" "t' = t2" by simp_all
        with cond Put f Some wf show ?thesis by (intro written [of q tr c t1]) simp_all
      qed
    qed
  qed
qed

lemma writeFileSync_Inr: "writeFileSync t (q, tr) c = Inr t' \<longleftrightarrow> \<not> tr \<and> write_at t q c = Inr t'"
  by (auto simp: writeFileSync_def split: sum.splits)

lemma step_keeps_exists:
  assumes "step a t = (err, t')" and "existsSync t p"
  shows "existsSync t' p"
  using assms(1)
proof (cases rule: step_cases)
  case (bad_data q tr t1)
  with assms(2) show ?thesis by (auto split: if_splits intro: mkdirp_keeps_exists)
next
  case (write_fails q tr c t1 e)
  with assms(2) show ?thesis by (auto split: if_splits intro: mkdirp_keeps_exists)
next
  case (written q tr c t1)
  then have "existsSync t1 p"
    using assms(2) by (auto split: if_splits intro: mkdirp_keeps_exists)
  with written show ?thesis
    by (auto simp: writeFileSync_Inr intro: write_at_keeps_exists)
qed (use assms(2) in auto)


lemma step_keeps_file:
  assumes "step a t = (err, t')" and "lookup t p = Inr (File c)"
    and "\<forall>f d. a = Put f d \<longrightarrow> fst f \<noteq> p"
  shows "lookup t' p = Inr (File c)"
  using assms(1)
proof (cases rule: step_cases)
  case (bad_data q tr t1)
  with assms(2) show ?thesis by (auto split: if_splits intro: mkdirp_keeps_file)
next
  case (write_fails q tr c t1 e)
  with assms(2) show ?thesis by (auto split: if_splits intro: mkdirp_keeps_file)
next
  case (written q tr c' t1)
  then have "lookup t1 p = Inr (File c)"
    using assms(2) by (auto split: if_splits intro: mkdirp_keeps_file)
  moreover from written assms(3) have "p \<noteq> q" by auto
  ultimately show ?thesis using written
    by (auto simp: writeFileSync_Inr intro: write_at_keeps_file)
qed (use assms(2) in auto)

lemma steps_induct_rule:
  assumes "steps as t = (err, t')"
    and "\<And>a u e u'. a \<in> set as \<Longrightarrow> step a u = (e, u') \<Longrightarrow> P u \<Longrightarrow> P u'"
    and "P t"
  shows "P t'"
  using assms
proof (induction as arbitrary: t)
  case Nil
  then show ?case by simp
next
  case (Cons a as)
  obtain e u where st: "step a t = (e, u)" by (cases "step a t")
  with Cons.prems(2) [of a t e u] Cons.prems(3) have Pu: "P u" by simp
  show ?case
  proof (cases e)
    case None
    with st Cons.prems(1) have run: "steps as u = (err, t')" by simp
    show ?thesis
    proof (rule Cons.IH [OF run _ Pu])
      fix a' v e' v'
      assume "a' \<in> set as" "step a' v = (e', v')" "P v"
      then show "P v'" using Cons.prems(2) [of a' v e' v'] by simp
    qed
  next
    case (Some x)
    with st Cons.prems(1) Pu show ?thesis by simp
  qed
qed

lemma steps_keeps_exists:
  "steps as t = (err, t') \<Longrightarrow> existsSync t p \<Longrightarrow> existsSync t' p"
  by (erule steps_induct_rule [where P = "\<lambda>u. existsSync u p"]) (auto intro: step_keeps_exists)


lemma steps_keeps_file:
  assumes "steps as t = (err, t')" and "lookup t p = Inr (File c)"
    and "\<forall>a \<in> set as. \<forall>f d. a = Put f d \<longrightarrow> fst f \<noteq> p"
  shows "lookup t' p = Inr (File c)"
  using assms(1)
proof (rule steps_induct_rule [where P = "\<lambda>u. lookup u p = Inr (File c)"])
  fix a u e u'
  assume "a \<in> set as" "step a u = (e, u')" "lookup u p = Inr (File c)"
  with assms(3) show "lookup u' p = Inr (File c)"
    by (intro step_keeps_file [of a u e u' p c]) auto
qed (rule assms(2))

lemma ow_write: "lookup n q = Inr (File c0) \<Longrightarrow> write_at n q s = Inr (ow n q s)"
proof (induction q arbitrary: n)
  case Nil
  then show ?case by simp
next
  case (Cons k ks)
  then obtain es m where "n = Dir es" "map_of es k = Some m" "lookup m ks = Inr (File c0)"
    by (cases n) (auto split: option.splits)
  with Cons.IH show ?case by simp
qed

lemma ow_same: "lookup n q = Inr (File c) \<Longrightarrow> ow n q c = n"
proof (induction q arbitrary: n)
  case Nil
  then show ?case by simp
next
  case (Cons k ks)
  then obtain es m where "n = Dir es" "map_of es k = Some m" "lookup m ks = Inr (File c)"
    by (cases n) (auto split: option.splits)
  with Cons.IH show ?case by (simp add: update_triv)
qed

lemma ow_Nil: "ow n [] s = (case n of File old \<Rightarrow> File s | _ \<Rightarrow> n)"
  by (cases n) auto

lemma ow_Cons_leaf: "(\<And>es. n \<noteq> Dir es) \<Longrightarrow> ow n (k # ks) s = n"
  by (cases n) auto

lemma ow_twice: "ow (ow n q c') q c = ow n q c"
proof (induction q arbitrary: n)
  case Nil
  then show ?case by (cases n) auto
next
  case (Cons k ks)
  then show ?case by (cases n) (auto simp: update_conv' split: option.splits)
qed

lemma update_swap_list:
  assumes "k \<noteq> k'" and "map_of al k \<noteq> None" and "map_of al k' \<noteq> None"
  shows "AList.update k v (AList.update k' v' al) = AList.update k' v' (AList.update k v al)"
  using assms by (induction al) (auto split: if_splits)

lemma ow_commute: "q \<noteq> q' \<Longrightarrow> ow (ow n q c) q' c' = ow (ow n q' c') q c"
proof (induction q arbitrary: n q')
  case Nil
  then obtain k' ks' where q': "q' = k' # ks'" by (cases q') auto
  show ?case by (cases n) (auto simp: q' split: option.splits)
next
  case (Cons k ks)
  show ?case
  proof (cases n)
    case (Dir es)
    show ?thesis
    proof (cases q')
      case Nil
      with Dir show ?thesis by (auto split: option.splits)
    next
      case q': (Cons k' ks')
      show ?thesis
      proof (cases "map_of es k")
        case None
        with Dir show ?thesis
          by (auto simp: q' update_conv' split: option.splits)
      next
        case (Some m)
        show ?thesis
        proof (cases "k' = k")
          case True
          with Cons.prems q' have "ks \<noteq> ks'" by simp
          from Cons.IH [OF this, of m] True Some Dir show ?thesis
            by (simp add: q' update_conv')
        next
          case False
          show ?thesis
          proof (cases "map_of es k'")
            case None
            with False Some Dir show ?thesis by (simp add: q' update_conv')
          next
            case m': (Some m')
            with False Some Dir show ?thesis
              by (simp add: q' update_conv' update_swap_list)
          qed
        qed
      qed
    qed
  qed (cases q'; simp)+
qed

lemma write_at_keeps_isfile:
  assumes "write_at n q s = Inr n'" and "lookup n p = Inr (File x)"
  shows "\<exists>y. lookup n' p = Inr (File y)"
proof (cases "p = q")
  case True
  with assms(1) show ?thesis by (auto dest: write_at_result)
next
  case False
  with assms show ?thesis by (auto dest: write_at_keeps_file)
qed

lemma replayable_write:
  "write_at u q c = Inr u' \<Longrightarrow> replayable u a \<Longrightarrow> replayable u' a"
  by (cases a)
    (auto simp: replayable_def dest: write_at_keeps_exists write_at_keeps_isfile)

lemma replayable_mkdirp:
  "mkdirp_at u d = Inr u' \<Longrightarrow> replayable u a \<Longrightarrow> replayable u' a"
  by (cases a)
    (auto simp: replayable_def dest: mkdirp_keeps_exists mkdirp_keeps_file)

lemma step_replayable:
  assumes "replayable u a"
  shows "step a u = (None, case a of Put f (Some c) \<Rightarrow> ow u (fst f) c | _ \<Rightarrow> u)"
proof (cases a)
  case Skip
  then show ?thesis by (simp add: step_def)
next
  case (Fail e)
  with assms show ?thesis by (simp add: replayable_def)
next
  case (Put f d)
  with assms obtain q c x where f: "f = (q, False)" and d: "d = Some c"
    and ex: "existsSync u (butlast q)" and fl: "lookup u q = Inr (File x)"
    by (cases f) (auto simp: replayable_def)
  from ow_write [OF fl, of c] have "writeFileSync u (q, False) c = Inr (ow u q c)"
    by (simp add: writeFileSync_def)
  with Put f d ex show ?thesis by (simp add: step_def path_dirname_def)
qed

lemma steps_replay:
  "\<forall>a \<in> set as. replayable u a \<Longrightarrow> steps as u = (None, replay as u)"
proof (induction as arbitrary: u)
  case Nil
  then show ?case by simp
next
  case (Cons a as)
  define u' where "u' = (case a of Put f (Some c) \<Rightarrow> ow u (fst f) c | _ \<Rightarrow> u)"
  from Cons.prems have ra: "replayable u a" by simp
  then have st: "step a u = (None, u')" unfolding u'_def by (rule step_replayable)
  have "\<forall>b \<in> set as. replayable u' b"
  proof
    fix b assume b: "b \<in> set as"
    with Cons.prems have rb: "replayable u b" by simp
    show "replayable u' b"
    proof (cases "\<exists>f c. a = Put f (Some c)")
      case True
      then obtain f c where a: "a = Put f (Some c)" by blast
      with ra obtain x where "lookup u (fst f) = Inr (File x)" by (auto simp: replayable_def)
      from ow_write [OF this, of c] rb a show ?thesis
        by (auto simp: u'_def intro: replayable_write)
    next
      case False
      then have "u' = u" by (auto simp: u'_def split: action.splits option.splits)
      with rb show ?thesis by simp
    qed
  qed
  from Cons.IH [OF this] st show ?case by (simp add: u'_def)
qed

lemma replay_absorb:
  "final_content as q \<noteq> None \<Longrightarrow> replay as (ow u q c) = replay as u"
proof (induction as arbitrary: u)
  case Nil
  then show ?case by simp
next
  case (Cons a as)
  show ?case
  proof (cases "\<exists>f c'. a = Put f (Some c')")
    case True
    then obtain f c' where a: "a = Put f (Some c')" by blast
    show ?thesis
    proof (cases "fst f = q")
      case True
      with a show ?thesis by (simp add: ow_twice)
    next
      case False
      with Cons.prems a have "final_content as q \<noteq> None" by (auto split: option.splits)
      from Cons.IH [OF this, of "ow u (fst f) c'"] False a show ?thesis
        by (simp add: ow_commute [of q "fst f"])
    qed
  next
    case False
    with Cons.prems have fc: "final_content as q \<noteq> None"
      by (auto split: option.splits action.splits)
    from False have "(case a of Put f (Some c) \<Rightarrow> ow v (fst f) c | _ \<Rightarrow> v) = v" for v
      by (auto split: action.splits option.splits)
    with Cons.IH [OF fc] show ?thesis by simp
  qed
qed

lemma replay_fixed:
  "\<forall>q c. final_content as q = Some c \<longrightarrow> lookup u q = Inr (File c) \<Longrightarrow> replay as u = u"
proof (induction as)
  case Nil
  then show ?case by simp
next
  case (Cons a as)
  have later: "\<forall>q c. final_content as q = Some c \<longrightarrow> lookup u q = Inr (File c)"
    using Cons.prems by auto
  show ?case
  proof (cases "\<exists>f c'. a = Put f (Some c')")
    case True
    then obtain f c' where a: "a = Put f (Some c')" by blast
    show ?thesis
    proof (cases "final_content as (fst f)")
      case None
      with a have "final_content (a # as) (fst f) = Some c'" by simp
      with Cons.prems have "lookup u (fst f) = Inr (File c')" by blast
      then have "ow u (fst f) c' = u" by (rule ow_same)
      with a Cons.IH [OF later] show ?thesis by simp
    next
      case (Some c'')
      then have "replay as (ow u (fst f) c') = replay as u" by (intro replay_absorb) simp
      with a Cons.IH [OF later] show ?thesis by simp
    qed
  next
    case False
    then have "(case a of Put f (Some c) \<Rightarrow> ow u (fst f) c | _ \<Rightarrow> u) = u"
      by (auto split: action.splits option.splits)
    with Cons.IH [OF later] show ?thesis by simp
  qed
qed

lemma stable_steps: "stable as u \<Longrightarrow> steps as u = (None, u)"
  by (simp add: stable_def steps_replay replay_fixed)

lemma stable_mkdirp: "mkdirp_at u d = Inr u' \<Longrightarrow> stable as u \<Longrightarrow> stable as u'"
  by (auto simp: stable_def intro: replayable_mkdirp mkdirp_keeps_file)

lemma step_keeps_replayable:
  assumes "step a t = (err, t')" and "replayable t b"
  shows "replayable t' b"
  using assms(1)
proof (cases rule: step_cases)
  case (bad_data q tr t1)
  with assms(2) show ?thesis by (auto split: if_splits intro: replayable_mkdirp)
next
  case (write_fails q tr c t1 e)
  with assms(2) show ?thesis by (auto split: if_splits intro: replayable_mkdirp)
next
  case (written q tr c t1)
  then have "replayable t1 b"
    using assms(2) by (auto split: if_splits intro: replayable_mkdirp)
  with written show ?thesis
    by (auto simp: writeFileSync_Inr intro: replayable_write)
qed (use assms(2) in auto)

lemma steps_keeps_replayable:
  "steps as t = (err, t') \<Longrightarrow> replayable t b \<Longrightarrow> replayable t' b"
  by (erule steps_induct_rule [where P = "\<lambda>u. replayable u b"])
    (auto intro: step_keeps_replayable)

lemma step_done_replayable:
  assumes "step a t = (None, t')"
  shows "replayable t' a"
  using assms
proof (cases rule: step_cases)
  case skip
  then show ?thesis by (simp add: replayable_def)
next
  case (written q tr c t1)
  then have w: "\<not> tr" "write_at t1 q c = Inr t'" by (simp_all add: writeFileSync_Inr)
  from written have "existsSync t1 (butlast q)"
    by (auto split: if_splits intro: mkdirp_exists)
  with w have "existsSync t' (butlast q)" by (auto intro: write_at_keeps_exists)
  moreover from w have "lookup t' q = Inr (File c)" by (auto intro: write_at_result)
  ultimately show ?thesis using written w by (simp add: replayable_def)
qed simp_all

lemma step_done_file:
  assumes "step (Put f (Some c)) t = (None, t')"
  shows "lookup t' (fst f) = Inr (File c)"
  using assms
  by (cases rule: step_cases) (auto simp: writeFileSync_Inr intro: write_at_result)

lemma final_content_None:
  "final_content as q = None \<Longrightarrow> a \<in> set as \<Longrightarrow> a = Put f d \<Longrightarrow> d \<noteq> None \<Longrightarrow> fst f \<noteq> q"
  by (induction as) (auto split: option.splits if_splits)

lemma steps_stable: "steps as t = (None, t') \<Longrightarrow> stable as t'"
proof (induction as arbitrary: t)
  case Nil
  then show ?case by (simp add: stable_def)
next
  case (Cons a as)
  from Cons.prems obtain u where st: "step a t = (None, u)" and run: "steps as u = (None, t')"
    by (cases "step a t") (auto split: option.splits)
  from Cons.IH [OF run] have IH: "stable as t'" .
  from step_done_replayable [OF st] run have ra: "replayable t' a"
    by (rule steps_keeps_replayable [rotated])
  have "lookup t' q = Inr (File c)" if fc: "final_content (a # as) q = Some c" for q c
  proof (cases "final_content as q")
    case (Some c')
    with fc IH show ?thesis by (simp add: stable_def)
  next
    case None
    with fc obtain f where a: "a = Put f (Some c)" and q: "fst f = q"
      by (auto split: action.splits option.splits if_splits)
    from st a q have "lookup u q = Inr (File c)" by (auto dest: step_done_file)
    moreover have "\<forall>b \<in> set as. \<forall>f d. b = Put f d \<longrightarrow> fst f \<noteq> q"
    proof (intro ballI allI impI)
      fix b f' d assume b: "b \<in> set as" "b = Put f' d"
      with IH have "d \<noteq> None" by (auto simp: stable_def replayable_def)
      with None b show "fst f' \<noteq> q" by (rule final_content_None)
    qed
    ultimately show ?thesis using run by (intro steps_keeps_file [of as u None t' q c])
  qed
  with IH ra show ?case by (simp add: stable_def)
qed

lemma steps_error_split:
  "steps as t = (Some e, t') \<Longrightarrow>
     \<exists>pre a post t0. as = pre @ a # post \<and> steps pre t = (None, t0) \<and> step a t0 = (Some e, t')"
proof (induction as arbitrary: t)
  case Nil
  then show ?case by simp
next
  case (Cons a as)
  obtain err u where st: "step a t = (err, u)" by (cases "step a t")
  show ?case
  proof (cases err)
    case None
    with st Cons.prems have "steps as u = (Some e, t')" by simp
    from Cons.IH [OF this] obtain pre b post t0 where
      "as = pre @ b # post" "steps pre u = (None, t0)" "step b t0 = (Some e, t')" by blast
    with st None have "a # as = (a # pre) @ b # post \<and> steps (a # pre) t = (None, t0) \<and>
        step b t0 = (Some e, t')" by simp
    then show ?thesis by blast
  next
    case (Some x)
    with st Cons.prems have "a # as = [] @ a # as \<and> steps [] t = (None, t) \<and>
        step a t = (Some e, t')" by simp
    then show ?thesis by blast
  qed
qed

lemma step_error_again:
  assumes "step a t = (Some e, t')"
  shows "step a t' = (Some e, t')"
  using assms
proof (cases rule: step_cases)
  case (bad_data q tr t1)
  then have "existsSync t' (butlast q)" by (auto split: if_splits intro: mkdirp_exists)
  with bad_data show ?thesis by (simp add: step_def path_dirname_def)
next
  case (write_fails q tr c t1 e')
  then have "existsSync t' (butlast q)" by (auto split: if_splits intro: mkdirp_exists)
  with write_fails show ?thesis by (simp add: step_def path_dirname_def)
qed (use assms in auto)

lemma step_error_stable:
  assumes "step a t = (Some e, t')" and "stable as t"
  shows "stable as t'"
  using assms(1)
  by (cases rule: step_cases) (use assms(2) in \<open>auto split: if_splits intro: stable_mkdirp\<close>)

lemma steps_again: "steps as t = (err, t') \<Longrightarrow> steps as t' = (err, t')"
proof (cases err)
  case None
  assume "steps as t = (err, t')"
  with None show ?thesis by (auto intro: stable_steps steps_stable)
next
  case (Some e)
  assume "steps as t = (err, t')"
  with Some steps_error_split obtain pre a post t0 where
    as: "as = pre @ a # post" and pre: "steps pre t = (None, t0)"
    and a: "step a t0 = (Some e, t')" by blast
  from pre have "stable pre t0" by (rule steps_stable)
  with a have "stable pre t'" by (rule step_error_stable)
  then have "steps pre t' = (None, t')" by (rule stable_steps)
  with step_error_again [OF a] as Some show ?thesis by (simp add: steps_append)
qed

section \<open>The writer: whole runs\<close>

lemma tree_emit [simp]: "tree (emit line w) = tree w"
  by (simp add: emit_def)

lemma generateProject_try_tree:
  "(case generateProject_try JSON_parse cwd jsonFilePath outputDir w of (err, w') \<Rightarrow> (err, tree w'))
     = writer_tree JSON_parse cwd jsonFilePath outputDir (tree w)"
proof -
  define jp where "jp = path_resolve cwd jsonFilePath"
  define root where "root = path_resolve cwd outputDir"
  define w0 where "w0 = emit (Log_Generating root) (emit (Log_Reading jp) w)"
  have t0: "tree w0 = tree w" by (simp add: w0_def)
  show ?thesis
  proof (cases "existsSync (tree w) jp")
    case False
    then show ?thesis
      by (simp add: generateProject_try_def writer_tree_def Let_def jp_def)
  next
    case ex: True
    show ?thesis
    proof (cases "readFileSync (tree w) jp")
      case (Inl e)
      with ex show ?thesis
        by (simp add: generateProject_try_def writer_tree_def Let_def jp_def)
    next
      case raw: (Inr rawData)
      show ?thesis
      proof (cases "JSON_parse rawData")
        case (Inl m)
        with ex raw show ?thesis
          by (simp add: generateProject_try_def writer_tree_def Let_def jp_def)
      next
        case doc: (Inr projectData)
        show ?thesis
        proof (cases "\<exists>files. get_property projectData ''project_files'' = Inr (Some (JArray files))")
          case False
          with ex raw doc show ?thesis
            by (auto simp add: generateProject_try_def writer_tree_def Let_def jp_def
                split: sum.splits option.splits json.splits)
        next
          case True
          then obtain files where files:
            "get_property projectData ''project_files'' = Inr (Some (JArray files))" ..
          show ?thesis
          proof (cases "existsSync (tree w) root")
            case True
            with ex raw doc files forEach_file_steps [of root files w0] t0 show ?thesis
              by (auto simp add: generateProject_try_def writer_tree_def Let_def jp_def root_def w0_def
                  split: prod.splits option.splits)
          next
            case nr: False
            show ?thesis
            proof (cases "mkdirSync (tree w) root")
              case (Inl e)
              with nr ex raw doc files show ?thesis
                by (simp add: generateProject_try_def writer_tree_def Let_def jp_def root_def)
            next
              case (Inr t)
              with nr ex raw doc files
                forEach_file_steps [of root files "emit (Log_CreatedRoot outputDir) (w0\<lparr>tree := t\<rparr>)"]
              show ?thesis
                by (auto simp add: generateProject_try_def writer_tree_def Let_def jp_def root_def w0_def
                    split: prod.splits option.splits)
            qed
          qed
        qed
      qed
    qed
  qed
qed

lemma generateProject_tree:
  assumes "generateProject JSON_parse cwd jsonFilePath outputDir w = (w1, code)"
  shows "\<exists>err. writer_tree JSON_parse cwd jsonFilePath outputDir (tree w) = (err, tree w1) \<and>
           code = (case err of None \<Rightarrow> 0 | Some e \<Rightarrow> 1)"
proof -
  obtain err w' where tr: "generateProject_try JSON_parse cwd jsonFilePath outputDir w = (err, w')"
    by (cases "generateProject_try JSON_parse cwd jsonFilePath outputDir w")
  with generateProject_try_tree [of JSON_parse cwd jsonFilePath outputDir w]
  have wt: "writer_tree JSON_parse cwd jsonFilePath outputDir (tree w) = (err, tree w')" by simp
  show ?thesis
  proof (cases err)
    case None
    with tr assms wt show ?thesis by (simp add: generateProject_def)
  next
    case (Some e)
    with tr assms have "tree w1 = tree w' \<and> code = 1"
      by (cases e) (auto simp: generateProject_def)
    with Some wt show ?thesis by simp
  qed
qed

lemma readFileSync_exists: "readFileSync t p = Inr s \<Longrightarrow> existsSync t p"
  by (auto simp: readFileSync_def existsSync_def statSync_def split: sum.splits node.splits)

lemma writer_tree_again:
  assumes run: "writer_tree JSON_parse cwd jsonFilePath outputDir t = (err, t1)"
    and same: "readFileSync t1 (path_resolve cwd jsonFilePath)
                 = readFileSync t (path_resolve cwd jsonFilePath)"
  shows "writer_tree JSON_parse cwd jsonFilePath outputDir t1 = (err, t1)"
proof (cases "t1 = t")
  case True
  with run show ?thesis by simp
next
  case False
  define jp where "jp = path_resolve cwd jsonFilePath"
  define root where "root = path_resolve cwd outputDir"
  from run False obtain rawData projectData files t0 where
    raw: "readFileSync t jp = Inr rawData" and doc: "JSON_parse rawData = Inr projectData"
    and files: "get_property projectData ''project_files'' = Inr (Some (JArray files))"
    and t0: "if existsSync t root then t0 = t else mkdir_at t root = Inr t0"
    and st: "steps (map (entry_action root) files) t0 = (err, t1)"
    by (auto simp: writer_tree_def Let_def jp_def root_def mkdirSync_def
        split: if_splits sum.splits option.splits json.splits)
  from t0 have "existsSync t0 root" by (auto split: if_splits intro: mkdir_exists)
  with st have ex_root: "existsSync t1 root" by (rule steps_keeps_exists)
  from same raw have raw1: "readFileSync t1 jp = Inr rawData" by (simp add: jp_def)
  then have ex_jp: "existsSync t1 jp" by (rule readFileSync_exists)
  from st have "steps (map (entry_action root) files) t1 = (err, t1)" by (rule steps_again)
  with raw1 ex_jp ex_root doc files show ?thesis
    by (simp add: writer_tree_def Let_def jp_def [symmetric] root_def [symmetric])
qed

text \<open>
  C7. A run of the writer ends, with any exit code, and the input file reads the same
  after it as before (the run did not write over its own input): a second run with the
  same arguments ends with the same exit code and leaves the disk exactly as the first
  run left it. Directories that are there are no error, files are overwritten, nothing
  is added.
\<close>

theorem writer_twice_same_disk:
  assumes "generateProject JSON_parse cwd jsonFilePath outputDir w = (w1, code)"
    and "readFileSync (tree w1) (path_resolve cwd jsonFilePath)
           = readFileSync (tree w) (path_resolve cwd jsonFilePath)"
  shows "\<exists>w2. generateProject JSON_parse cwd jsonFilePath outputDir w1 = (w2, code) \<and>
           tree w2 = tree w1"
proof -
  from generateProject_tree [OF assms(1)] obtain err where
    wt: "writer_tree JSON_parse cwd jsonFilePath outputDir (tree w) = (err, tree w1)"
    and code: "code = (case err of None \<Rightarrow> 0 | Some e \<Rightarrow> 1)" by blast
  from writer_tree_again [OF wt assms(2)] have
    again: "writer_tree JSON_parse cwd jsonFilePath outputDir (tree w1) = (err, tree w1)" .
  obtain w2 code2 where run2: "generateProject JSON_parse cwd jsonFilePath outputDir w1 = (w2, code2)"
    by (cases "generateProject JSON_parse cwd jsonFilePath outputDir w1")
  from generateProject_tree [OF run2] again code have "tree w2 = tree w1" "code2 = code"
    by auto
  with run2 show ?thesis by simp
qed












lemmas run_simps =
  generateProject_def generateProject_try_def forEach_callback_def path_resolve_def path_join_def
  path_dirname_def normalizeString_def isAbsolute_def existsSync_def statSync_def readFileSync_def
  readdirSync_def mkdirSync_def mkdirSync_recursive_def writeFileSync_def get_property_def
  parse_known_def emit_def set_property_def Let_def


lemma twice_run:
  "generateProject (parse_known [(twice_text, twice_doc)]) [''work''] ''in.json'' ''out''
     \<lparr>tree = twice_disk, console = []\<rparr>
   = (\<lparr>tree = Dir [(''work'', Dir [(''in.json'', File twice_text),
                                   (''out'', Dir [(''a.txt'', File ''new'')])])],
       console = [Log_Reading [''work'', ''in.json''], Log_Generating [''work'', ''out''],
                  Log_CreatedRoot ''out'', Log_CreatedFile ''a.txt'', Log_CreatedFile ''a.txt'',
                  Log_Complete]\<rparr>, 0)"
  by (simp add: run_simps twice_disk_def twice_doc_def)



theorem writer_twice_same_disk_witness:
  "snd (generateProject (parse_known [(twice_text, twice_doc)]) [''work''] ''in.json'' ''out''
          \<lparr>tree = twice_disk, console = []\<rparr>) = 0
   \<and> (\<exists>w2. generateProject (parse_known [(twice_text, twice_doc)]) [''work''] ''in.json'' ''out''
          (fst (generateProject (parse_known [(twice_text, twice_doc)]) [''work''] ''in.json''
             ''out'' \<lparr>tree = twice_disk, console = []\<rparr>)) = (w2, 0)
        \<and> tree w2 = Dir [(''work'', Dir [(''in.json'', File twice_text),
                                         (''out'', Dir [(''a.txt'', File ''new'')])])])"
proof -
  have same: "readFileSync
      (tree \<lparr>tree = Dir [(''work'', Dir [(''in.json'', File twice_text),
                                   (''out'', Dir [(''a.txt'', File ''new'')])])],
       console = [Log_Reading [''work'', ''in.json''], Log_Generating [''work'', ''out''],
                  Log_CreatedRoot ''out'', Log_CreatedFile ''a.txt'', Log_CreatedFile ''a.txt'',
                  Log_Complete]\<rparr>) (path_resolve [''work''] ''in.json'')
      = readFileSync (tree \<lparr>tree = twice_disk, console = []\<rparr>) (path_resolve [''work''] ''in.json'')"
    by (simp add: run_simps twice_disk_def)
  from writer_twice_same_disk [OF twice_run same] show ?thesis by (simp add: twice_run)
qed

section \<open>The reader script: runs\<close>

lemmas cli_simps =
  reader_cli_def createDummyProject_def and_then_def rmSync_recursive_force_def
  existsSync_def statSync_def readdirSync_def readFileSync_def mkdirSync_def
  mkdirSync_recursive_def writeFileSync_def path_resolve_def path_join_def normalizeString_def
  isAbsolute_def emit_def set_property_def Let_def

text \<open>
  C1. The reader script is started on a directory \<^verbatim>\<open>/proj\<close> that holds one file,
  \<^verbatim>\<open>a.txt\<close>. Between its two readings the script calls \<^verbatim>\<open>createDummyProject\<close>, which
  removes the directory and makes the demonstration project in its place: after the run
  \<^verbatim>\<open>a.txt\<close> is gone, and what is printed and saved is the mapping of the demonstration
  project, not of what the directory held.
\<close>

theorem reader_cli_replaces_directory:
  "reader_cli JSON_stringify [] [''tool''] (Some ''/proj'')
     \<lparr>tree = Dir [(''proj'', Dir [(''a.txt'', File ''hi'')]), (''tool'', Dir [])], console = []\<rparr>
   = (\<lparr>tree = Dir [(''tool'', Dir [(''project-structure.json'', File (JSON_stringify dummy_json))]),
                   (''proj'', dummy_project)],
       console = [Log_DummyCreated, Log_GeneratedHeader, Log_JsonOutput (JSON_stringify dummy_json),
                  Log_Saved]\<rparr>, 0)"
  by (simp add: cli_simps dummy_project_def dummy_json_def)





end
